theory Spec2Isabelle
  imports Main
begin

section \<open>Data model\<close>

text \<open>
  Source text is a list of characters. A JavaScript string is a sequence of UTF-16 code
  units; the model covers texts whose code units are below 256, one \<open>char\<close> each, so
  that offsets and \<open>length\<close> agree with the source.
\<close>

datatype tokenType = STRING | NUMBER | KEYWORD | IDENTIFIER | OPERATOR | SYMBOL

text \<open>A token \<^verbatim>\<open>{ type, value, start, end }\<close> of \<^verbatim>\<open>tokenize\<close>.\<close>

record token =
  t_type :: tokenType
  t_value :: string
  t_start :: nat
  t_end :: nat

text \<open>
  The \<^verbatim>\<open>value\<close> field of a \<^verbatim>\<open>Literal\<close> node. A numeric value is a double;
  the only observation any code makes of it is \<^verbatim>\<open>Number.isInteger\<close>, which is the
  payload of \<open>NumberValue\<close>.
\<close>

datatype literalValue =
    NumberValue bool
  | StringValue string
  | BooleanValue bool
  | NullValue

text \<open>
  Expression-level nodes, as the \<^verbatim>\<open>parseExpression\<close> family builds them. The last two
  arguments of every constructor are the fields \<^verbatim>\<open>start\<close> and \<^verbatim>\<open>end\<close>.
\<close>

datatype expr =
    Literal literalValue string nat nat
  | Identifier string nat nat
  | BinaryExpression string expr expr nat nat
  | LogicalExpression string expr expr nat nat
  | UnaryExpression string expr nat nat
  | CallExpression expr "expr list" nat nat
  | MemberExpression expr expr nat nat
  | ArrayExpression "expr list" nat nat
  | ObjectExpression "expr list" nat nat
  | Property token expr nat nat

text \<open>
  Statement-level nodes, as the \<^verbatim>\<open>parseStatement\<close> family builds them. A
  \<^verbatim>\<open>BlockStatement\<close> is built as \<^verbatim>\<open>{ type, body }\<close> only; a single-statement block
  holds the result of \<^verbatim>\<open>parseStatement\<close>, which may be \<^verbatim>\<open>null\<close>. The \<^verbatim>\<open>init\<close> of
  a \<^verbatim>\<open>ForStatement\<close> is a variable declaration or an expression.
\<close>

datatype stmt =
    VariableDeclaration "string option" string "expr option" nat nat
  | IfStatement expr stmt "stmt option" nat nat
  | WhileStatement expr stmt nat nat
  | ForStatement "(stmt + expr) option" "expr option" "expr option" stmt nat nat
  | BlockStatement "stmt option list"
  | FunctionDeclaration expr "string list" stmt nat nat
  | ClassDeclaration expr stmt nat nat
  | ReturnStatement "expr option" nat nat
  | ExpressionStatement expr nat nat
  | AssignmentExpression string expr expr nat nat

fun expr_start :: "expr \<Rightarrow> nat" where
  "expr_start (Literal v raw s e) = s"
| "expr_start (Identifier name s e) = s"
| "expr_start (BinaryExpression oper l r s e) = s"
| "expr_start (LogicalExpression oper l r s e) = s"
| "expr_start (UnaryExpression oper a s e) = s"
| "expr_start (CallExpression callee args s e) = s"
| "expr_start (MemberExpression obj prop s e) = s"
| "expr_start (ArrayExpression elements s e) = s"
| "expr_start (ObjectExpression properties s e) = s"
| "expr_start (Property k v s e) = s"

fun expr_end :: "expr \<Rightarrow> nat" where
  "expr_end (Literal v raw s e) = e"
| "expr_end (Identifier name s e) = e"
| "expr_end (BinaryExpression oper l r s e) = e"
| "expr_end (LogicalExpression oper l r s e) = e"
| "expr_end (UnaryExpression oper a s e) = e"
| "expr_end (CallExpression callee args s e) = e"
| "expr_end (MemberExpression obj prop s e) = e"
| "expr_end (ArrayExpression elements s e) = e"
| "expr_end (ObjectExpression properties s e) = e"
| "expr_end (Property k v s e) = e"

text \<open>The \<^verbatim>\<open>start\<close> and \<^verbatim>\<open>end\<close> of a statement node, \<open>None\<close> where the node has none.\<close>

fun stmt_start :: "stmt \<Rightarrow> nat option" where
  "stmt_start (VariableDeclaration dt name ini s e) = Some s"
| "stmt_start (IfStatement test cons alt s e) = Some s"
| "stmt_start (WhileStatement test body s e) = Some s"
| "stmt_start (ForStatement ini test update body s e) = Some s"
| "stmt_start (BlockStatement body) = None"
| "stmt_start (FunctionDeclaration ident params body s e) = Some s"
| "stmt_start (ClassDeclaration ident body s e) = Some s"
| "stmt_start (ReturnStatement arg s e) = Some s"
| "stmt_start (ExpressionStatement x s e) = Some s"
| "stmt_start (AssignmentExpression oper l r s e) = Some s"

fun stmt_end :: "stmt \<Rightarrow> nat option" where
  "stmt_end (VariableDeclaration dt name ini s e) = Some e"
| "stmt_end (IfStatement test cons alt s e) = Some e"
| "stmt_end (WhileStatement test body s e) = Some e"
| "stmt_end (ForStatement ini test update body s e) = Some e"
| "stmt_end (BlockStatement body) = None"
| "stmt_end (FunctionDeclaration ident params body s e) = Some e"
| "stmt_end (ClassDeclaration ident body s e) = Some e"
| "stmt_end (ReturnStatement arg s e) = Some e"
| "stmt_end (ExpressionStatement x s e) = Some e"
| "stmt_end (AssignmentExpression oper l r s e) = Some e"

text \<open>A syntax error \<^verbatim>\<open>{ message, start, end }\<close> of \<^verbatim>\<open>addError\<close>.\<close>

record syntaxError =
  se_message :: string
  se_start :: nat
  se_end :: nat

text \<open>A \<^verbatim>\<open>{ line, character }\<close> position and a diagnostic \<^verbatim>\<open>{ severity, range, message }\<close>.\<close>

record lspPosition =
  line :: nat
  character :: nat

record diagnostic =
  severity :: nat
  range_start :: lspPosition
  range_end :: lspPosition
  d_message :: string

section \<open>Type checker (server/typeChecker.js)\<close>

text \<open>The state of a \<^verbatim>\<open>TypeChecker\<close>: the symbol table (a \<^verbatim>\<open>Map\<close>) and the error sink.\<close>

record checker =
  symbolTable :: "string \<rightharpoonup> string"
  tc_errors :: "diagnostic list"

text \<open>\<^verbatim>\<open>this.symbolTable.get(name) || 'any'\<close>: a missing entry and the empty string are falsy.\<close>

definition lookupType :: "(string \<rightharpoonup> string) \<Rightarrow> string \<Rightarrow> string" where
  "lookupType tab name =
     (case tab name of None \<Rightarrow> ''any'' | Some t \<Rightarrow> if t = [] then ''any'' else t)"

text \<open>\<^verbatim>\<open>x || 'any'\<close> on a string.\<close>

definition orAny :: "string \<Rightarrow> string" where
  "orAny t = (if t = [] then ''any'' else t)"

fun inferType :: "(string \<rightharpoonup> string) \<Rightarrow> expr \<Rightarrow> string" where
  "inferType tab (Literal v raw s e) =
     (case v of
        NumberValue isInt \<Rightarrow>
          if raw \<noteq> [] \<and> CHR ''.'' \<in> set raw then ''float''
          else if isInt then ''int'' else ''float''
      | StringValue str \<Rightarrow>
          if raw \<noteq> [] \<and> (take 1 raw = [CHR 0x22] \<or> take 1 raw = [CHR 0x27]) then ''string''
          else ''any''
      | BooleanValue b \<Rightarrow> ''bool''
      | NullValue \<Rightarrow> ''any'')"
| "inferType tab (ArrayExpression elements s e) = ''array''"
| "inferType tab (ObjectExpression properties s e) = ''object''"
| "inferType tab (Identifier name s e) = lookupType tab name"
| "inferType tab (BinaryExpression oper l r s e) =
     (if oper \<in> set [''=='', ''!='', ''<'', ''<='', ''>'', ''>='', ''and'', ''or''] then ''bool''
      else if oper \<in> set [''+'', ''-'', ''*'', ''/'', ''%''] then
        (let leftType = orAny (inferType tab l); rightType = orAny (inferType tab r) in
         if leftType = ''int'' \<and> rightType = ''int'' \<and> oper \<noteq> ''/'' then ''int''
         else ''float'')
      else ''any'')"
| "inferType tab (LogicalExpression oper l r s e) =
     (if oper \<in> set [''=='', ''!='', ''<'', ''<='', ''>'', ''>='', ''and'', ''or''] then ''bool''
      else if oper \<in> set [''+'', ''-'', ''*'', ''/'', ''%''] then
        (let leftType = orAny (inferType tab l); rightType = orAny (inferType tab r) in
         if leftType = ''int'' \<and> rightType = ''int'' \<and> oper \<noteq> ''/'' then ''int''
         else ''float'')
      else ''any'')"
| "inferType tab (UnaryExpression oper a s e) =
     (if oper = ''not'' then ''bool'' else orAny (inferType tab a))"
| "inferType tab (CallExpression callee args s e) = ''any''"
| "inferType tab (MemberExpression obj prop s e) = ''any''"
| "inferType tab (Property k v s e) = ''any''"

definition isCompatibleType :: "string \<Rightarrow> string \<Rightarrow> bool" where
  "isCompatibleType expected actual =
     (if expected = actual then True
      else if expected = ''any'' \<or> actual = ''any'' then True
      else if expected = ''float'' \<and> actual = ''int'' then True
      else if actual = ''nil'' then True
      else False)"

text \<open>
  \<^verbatim>\<open>getPositionFromIndex\<close>: one step of the scan over the characters before the index
  (clamped to the text), then the scan itself.
\<close>

definition positionStep :: "lspPosition \<Rightarrow> char \<Rightarrow> lspPosition" where
  "positionStep p c =
     (if c = CHR 0x0A then \<lparr>line = line p + 1, character = 0\<rparr>
      else \<lparr>line = line p, character = character p + 1\<rparr>)"

definition getPositionFromIndex :: "string \<Rightarrow> nat \<Rightarrow> lspPosition" where
  "getPositionFromIndex text index =
     foldl positionStep \<lparr>line = 0, character = 0\<rparr> (take index text)"

text \<open>
  \<^verbatim>\<open>checkNode\<close> on an expression node. \<^verbatim>\<open>BinaryExpression\<close> goes to
  \<^verbatim>\<open>checkBinaryExpression\<close> and \<^verbatim>\<open>CallExpression\<close> to \<^verbatim>\<open>checkCallExpression\<close>; every
  other kind goes to \<^verbatim>\<open>checkChildren\<close>, which visits the object-valued fields in the
  order the parser wrote them (the \<^verbatim>\<open>key\<close> of a \<^verbatim>\<open>Property\<close> is a token, whose fields
  hold no object).
\<close>

fun checkNodeExpr :: "string \<Rightarrow> expr \<Rightarrow> checker \<Rightarrow> checker"
  and checkNodesExpr :: "string \<Rightarrow> expr list \<Rightarrow> checker \<Rightarrow> checker" where
  "checkNodeExpr doc (BinaryExpression oper l r s e) c = checkNodeExpr doc r (checkNodeExpr doc l c)"
| "checkNodeExpr doc (CallExpression callee args s e) c =
     checkNodesExpr doc args (checkNodeExpr doc callee c)"
| "checkNodeExpr doc (LogicalExpression oper l r s e) c = checkNodeExpr doc r (checkNodeExpr doc l c)"
| "checkNodeExpr doc (UnaryExpression oper a s e) c = checkNodeExpr doc a c"
| "checkNodeExpr doc (MemberExpression obj prop s e) c =
     checkNodeExpr doc prop (checkNodeExpr doc obj c)"
| "checkNodeExpr doc (ArrayExpression elements s e) c = checkNodesExpr doc elements c"
| "checkNodeExpr doc (ObjectExpression properties s e) c = checkNodesExpr doc properties c"
| "checkNodeExpr doc (Property k v s e) c = checkNodeExpr doc v c"
| "checkNodeExpr doc (Identifier name s e) c = c"
| "checkNodeExpr doc (Literal v raw s e) c = c"
| "checkNodesExpr doc [] c = c"
| "checkNodesExpr doc (x # xs) c = checkNodesExpr doc xs (checkNodeExpr doc x c)"

text \<open>\<^verbatim>\<open>checkNode\<close> on a field that holds an expression or \<^verbatim>\<open>null\<close>.\<close>

fun checkNodeOptExpr :: "string \<Rightarrow> expr option \<Rightarrow> checker \<Rightarrow> checker" where
  "checkNodeOptExpr doc None c = c"
| "checkNodeOptExpr doc (Some x) c = checkNodeExpr doc x c"

text \<open>The diagnostic that \<^verbatim>\<open>checkVariableDeclaration\<close> pushes on a mismatch.\<close>

definition declarationMismatch :: "string \<Rightarrow> string \<Rightarrow> string \<Rightarrow> string \<Rightarrow> expr \<Rightarrow> diagnostic" where
  "declarationMismatch doc declaredType actualType variableName ini =
     \<lparr>severity = 1,
      range_start = getPositionFromIndex doc (expr_start ini),
      range_end = getPositionFromIndex doc (expr_end ini),
      d_message = ''Type mismatch: expected '' @ declaredType @ '' but got '' @ actualType
        @ '' for variable '' @ [CHR 0x27] @ variableName @ [CHR 0x27]\<rparr>"

text \<open>
  \<^verbatim>\<open>checkVariableDeclaration\<close>. \<^verbatim>\<open>!node.declaredType\<close> holds for \<^verbatim>\<open>null\<close> and for the
  empty string; \<^verbatim>\<open>node.name\<close> is falsy when empty.
\<close>

fun checkVariableDeclaration :: "string \<Rightarrow> stmt \<Rightarrow> checker \<Rightarrow> checker" where
  "checkVariableDeclaration doc (VariableDeclaration dt name ini s e) c =
     (if dt = None \<or> dt = Some [] then
        (let c1 = (if name \<noteq> [] then c\<lparr>symbolTable := (symbolTable c)(name \<mapsto> ''any'')\<rparr> else c)
         in checkNodeOptExpr doc ini c1)
      else
        (let declaredType = the dt; variableName = name in
         case ini of
           Some x \<Rightarrow>
             (let actualType = inferType (symbolTable c) x in
              if \<not> isCompatibleType declaredType actualType then
                c\<lparr>tc_errors := tc_errors c
                     @ [declarationMismatch doc declaredType actualType variableName x]\<rparr>
              else c\<lparr>symbolTable := (symbolTable c)(variableName \<mapsto> declaredType)\<rparr>)
         | None \<Rightarrow> c\<lparr>symbolTable := (symbolTable c)(variableName \<mapsto> declaredType)\<rparr>))"
| "checkVariableDeclaration doc other c = c"

text \<open>The diagnostic that \<^verbatim>\<open>checkAssignmentExpression\<close> pushes on a mismatch.\<close>

definition assignmentMismatch :: "string \<Rightarrow> string \<Rightarrow> string \<Rightarrow> string \<Rightarrow> expr \<Rightarrow> diagnostic" where
  "assignmentMismatch doc declaredType actualType varName r =
     \<lparr>severity = 1,
      range_start = getPositionFromIndex doc (expr_start r),
      range_end = getPositionFromIndex doc (expr_end r),
      d_message = ''Type mismatch: expected '' @ declaredType @ '' but got '' @ actualType
        @ '' when assigning to '' @ [CHR 0x27] @ varName @ [CHR 0x27]\<rparr>"

text \<open>
  \<^verbatim>\<open>checkAssignmentExpression\<close>. The guard \<^verbatim>\<open>node.left.type === 'Identifier'\<close> is the
  first pattern; \<^verbatim>\<open>declaredType && declaredType !== 'any'\<close> fails for a missing entry,
  the empty string and \<^verbatim>\<open>'any'\<close>.
\<close>

fun checkAssignmentExpression :: "string \<Rightarrow> stmt \<Rightarrow> checker \<Rightarrow> checker" where
  "checkAssignmentExpression doc (AssignmentExpression oper (Identifier varName ls le) r s e) c =
     (let c1 =
        (case symbolTable c varName of
           None \<Rightarrow> c
         | Some declaredType \<Rightarrow>
             if declaredType \<noteq> [] \<and> declaredType \<noteq> ''any'' then
               (let actualType = inferType (symbolTable c) r in
                if \<not> isCompatibleType declaredType actualType then
                  c\<lparr>tc_errors := tc_errors c
                       @ [assignmentMismatch doc declaredType actualType varName r]\<rparr>
                else c)
             else c)
      in checkNodeExpr doc r c1)"
| "checkAssignmentExpression doc other c = c"

text \<open>
  \<^verbatim>\<open>checkNode\<close> on a statement node, with \<^verbatim>\<open>checkIfStatement\<close>, \<^verbatim>\<open>checkWhileStatement\<close>
  and \<^verbatim>\<open>checkForStatement\<close> written out; \<^verbatim>\<open>BlockStatement\<close>, \<^verbatim>\<open>FunctionDeclaration\<close> and
  \<^verbatim>\<open>ClassDeclaration\<close> go to \<^verbatim>\<open>checkChildren\<close> (the \<^verbatim>\<open>params\<close> of a function are strings
  and hold no object). \<^verbatim>\<open>checkNode\<close> returns at once on \<^verbatim>\<open>null\<close>.
\<close>

fun checkNode :: "string \<Rightarrow> stmt \<Rightarrow> checker \<Rightarrow> checker"
  and checkNodes :: "string \<Rightarrow> stmt option list \<Rightarrow> checker \<Rightarrow> checker" where
  "checkNode doc (VariableDeclaration dt name ini s e) c =
     checkVariableDeclaration doc (VariableDeclaration dt name ini s e) c"
| "checkNode doc (AssignmentExpression oper l r s e) c =
     checkAssignmentExpression doc (AssignmentExpression oper l r s e) c"
| "checkNode doc (IfStatement test cons alt s e) c =
     (let c1 = checkNodeExpr doc test c; c2 = checkNode doc cons c1 in
      case alt of None \<Rightarrow> c2 | Some a \<Rightarrow> checkNode doc a c2)"
| "checkNode doc (WhileStatement test body s e) c =
     checkNode doc body (checkNodeExpr doc test c)"
| "checkNode doc (ForStatement None test update body s e) c =
     checkNode doc body (checkNodeOptExpr doc update (checkNodeOptExpr doc test c))"
| "checkNode doc (ForStatement (Some (Inl d)) test update body s e) c =
     checkNode doc body
       (checkNodeOptExpr doc update (checkNodeOptExpr doc test (checkNode doc d c)))"
| "checkNode doc (ForStatement (Some (Inr x)) test update body s e) c =
     checkNode doc body
       (checkNodeOptExpr doc update (checkNodeOptExpr doc test (checkNodeExpr doc x c)))"
| "checkNode doc (ExpressionStatement x s e) c = checkNodeExpr doc x c"
| "checkNode doc (ReturnStatement arg s e) c = checkNodeOptExpr doc arg c"
| "checkNode doc (BlockStatement body) c = checkNodes doc body c"
| "checkNode doc (FunctionDeclaration ident params body s e) c =
     checkNode doc body (checkNodeExpr doc ident c)"
| "checkNode doc (ClassDeclaration ident body s e) c =
     checkNode doc body (checkNodeExpr doc ident c)"
| "checkNodes doc [] c = c"
| "checkNodes doc (None # xs) c = checkNodes doc xs c"
| "checkNodes doc (Some x # xs) c = checkNodes doc xs (checkNode doc x c)"

text \<open>
  \<^verbatim>\<open>check(ast, document, errors)\<close>: a fresh symbol table, the caller's error sink, and
  every node of the body in order.
\<close>

definition check :: "stmt list \<Rightarrow> string \<Rightarrow> diagnostic list \<Rightarrow> checker" where
  "check body doc errs =
     checkNodes doc (map Some body) \<lparr>symbolTable = Map.empty, tc_errors = errs\<rparr>"

section \<open>Tokenizer (NeutronParser.tokenize)\<close>

text \<open>
  A computation that may throw: \<open>Ok\<close> carries the value and the state it leaves,
  \<open>Throw\<close> the message of the \<^verbatim>\<open>Error\<close> and the state at the throw, and \<open>Timeout\<close>
  says that the fuel given to a recursive descent ran out before it returned.
\<close>

datatype ('a, 's) result = Ok 'a 's | Throw string 's | Timeout

text \<open>Character classes: \<^verbatim>\<open>/\s/\<close>, \<^verbatim>\<open>/[0-9]/\<close>, \<^verbatim>\<open>/[0-9.]/\<close>, \<^verbatim>\<open>/[a-zA-Z_$]/\<close>, \<^verbatim>\<open>/[a-zA-Z0-9_$]/\<close>.\<close>

definition isSpace :: "char \<Rightarrow> bool" where
  "isSpace c \<longleftrightarrow>
     c \<in> set [CHR 0x09, CHR 0x0A, CHR 0x0B, CHR 0x0C, CHR 0x0D, CHR 0x20, CHR 0xA0]"

definition isDigit :: "char \<Rightarrow> bool" where
  "isDigit c \<longleftrightarrow> c \<in> set ''0123456789''"

definition isNumberChar :: "char \<Rightarrow> bool" where
  "isNumberChar c \<longleftrightarrow> c \<in> set ''0123456789.''"

definition isIdentStart :: "char \<Rightarrow> bool" where
  "isIdentStart c \<longleftrightarrow>
     c \<in> set ''abcdefghijklmnopqrstuvwxyzABCDEFGHIJKLMNOPQRSTUVWXYZ_$''"

definition isIdentPart :: "char \<Rightarrow> bool" where
  "isIdentPart c \<longleftrightarrow>
     c \<in> set ''abcdefghijklmnopqrstuvwxyzABCDEFGHIJKLMNOPQRSTUVWXYZ0123456789_$''"

text \<open>\<^verbatim>\<open>input[i]\<close>, which is \<^verbatim>\<open>undefined\<close> out of range, and \<^verbatim>\<open>input.slice(a, b)\<close>.\<close>

definition charAt :: "string \<Rightarrow> nat \<Rightarrow> char option" where
  "charAt s i = (if i < length s then Some (s ! i) else None)"

definition slice :: "string \<Rightarrow> nat \<Rightarrow> nat \<Rightarrow> string" where
  "slice s a b = take (b - a) (drop a s)"

definition isKeyword :: "string \<Rightarrow> bool" where
  "isKeyword v \<longleftrightarrow>
     v \<in> set [''var'', ''int'', ''float'', ''string'', ''bool'', ''array'', ''object'', ''any'',
              ''if'', ''elif'', ''else'', ''while'', ''for'', ''return'', ''break'', ''continue'',
              ''class'', ''fun'', ''this'', ''and'', ''or'', ''not'', ''in'', ''new'', ''match'',
              ''case'', ''default'', ''use'', ''using'', ''true'', ''false'', ''nil'']"

text \<open>A number in a template literal: its decimal digits.\<close>

function showNat :: "nat \<Rightarrow> string" where
  "showNat n =
     (if n < 10 then [''0123456789'' ! n]
      else showNat (n div 10) @ [''0123456789'' ! (n mod 10)])"
  by pat_completeness auto
termination
  by (relation "measure id") auto

declare showNat.simps [simp del]

text \<open>The inner loops of \<^verbatim>\<open>tokenize\<close>, each from the index it starts at to the index it ends at.\<close>

function skipLineComment :: "string \<Rightarrow> nat \<Rightarrow> nat" where
  "skipLineComment input current =
     (if current < length input \<and> input ! current \<noteq> CHR 0x0A
      then skipLineComment input (current + 1) else current)"
  by pat_completeness auto
termination
  by (relation "measure (\<lambda>(input, current). length input - current)") auto

declare skipLineComment.simps [simp del]

function skipBlockComment :: "string \<Rightarrow> nat \<Rightarrow> nat" where
  "skipBlockComment input current =
     (if current < length input - 1 \<and>
         \<not> (input ! current = CHR ''*'' \<and> input ! (current + 1) = CHR ''/'')
      then skipBlockComment input (current + 1) else current)"
  by pat_completeness auto
termination
  by (relation "measure (\<lambda>(input, current). length input - current)") auto

declare skipBlockComment.simps [simp del]

function scanString :: "string \<Rightarrow> char \<Rightarrow> nat \<Rightarrow> nat" where
  "scanString input quote current =
     (if current < length input \<and> input ! current \<noteq> quote
      then (if input ! current = CHR 0x5C then scanString input quote (current + 2)
            else scanString input quote (current + 1))
      else current)"
  by pat_completeness auto
termination
  by (relation "measure (\<lambda>(input, quote, current). length input - current)") auto

declare scanString.simps [simp del]

function scanNumber :: "string \<Rightarrow> nat \<Rightarrow> nat" where
  "scanNumber input current =
     (if current < length input \<and> isNumberChar (input ! current)
      then scanNumber input (current + 1) else current)"
  by pat_completeness auto
termination
  by (relation "measure (\<lambda>(input, current). length input - current)") auto

declare scanNumber.simps [simp del]

function scanIdentifier :: "string \<Rightarrow> nat \<Rightarrow> nat" where
  "scanIdentifier input current =
     (if current < length input \<and> isIdentPart (input ! current)
      then scanIdentifier input (current + 1) else current)"
  by pat_completeness auto
termination
  by (relation "measure (\<lambda>(input, current). length input - current)") auto

declare scanIdentifier.simps [simp del]

text \<open>
  One turn of the \<^verbatim>\<open>while (current < input.length)\<close> loop, entered with
  \<open>current < length input\<close>: the thrown message, or the new \<^verbatim>\<open>current\<close> and \<^verbatim>\<open>tokens\<close>.
\<close>

definition tokenizeStep :: "string \<Rightarrow> nat \<Rightarrow> token list \<Rightarrow> string + nat \<times> token list" where
  "tokenizeStep input current toks =
     (let char = input ! current in
      if isSpace char then Inr (current + 1, toks)
      else if char = CHR ''/'' \<and> charAt input (current + 1) = Some (CHR ''/'') then
        Inr (skipLineComment input current, toks)
      else if char = CHR ''/'' \<and> charAt input (current + 1) = Some (CHR ''*'') then
        Inr (skipBlockComment input (current + 2) + 2, toks)
      else if char = CHR 0x22 \<or> char = CHR 0x27 then
        (let closing = scanString input char (current + 1) in
         if closing \<ge> length input then
           Inl (''Unterminated string at position '' @ showNat current)
         else
           Inr (closing + 1,
                toks @ [\<lparr>t_type = STRING, t_value = slice input current (closing + 1),
                         t_start = current, t_end = closing + 1\<rparr>]))
      else if isDigit char then
        (let stop = scanNumber input current in
         Inr (stop, toks @ [\<lparr>t_type = NUMBER, t_value = slice input current stop,
                              t_start = current, t_end = stop\<rparr>]))
      else if isIdentStart char then
        (let stop = scanIdentifier input current; v = slice input current stop in
         Inr (stop, toks @ [\<lparr>t_type = (if isKeyword v then KEYWORD else IDENTIFIER),
                              t_value = v, t_start = current, t_end = stop\<rparr>]))
      else if char = CHR ''='' \<and> charAt input (current + 1) = Some (CHR ''='') then
        Inr (current + 2, toks @ [\<lparr>t_type = OPERATOR, t_value = ''=='',
                                     t_start = current, t_end = current + 2\<rparr>])
      else if char = CHR ''!'' \<and> charAt input (current + 1) = Some (CHR ''='') then
        Inr (current + 2, toks @ [\<lparr>t_type = OPERATOR, t_value = ''!='',
                                     t_start = current, t_end = current + 2\<rparr>])
      else if char = CHR ''>'' \<and> charAt input (current + 1) = Some (CHR ''='') then
        Inr (current + 2, toks @ [\<lparr>t_type = OPERATOR, t_value = ''>='',
                                     t_start = current, t_end = current + 2\<rparr>])
      else if char = CHR ''<'' \<and> charAt input (current + 1) = Some (CHR ''='') then
        Inr (current + 2, toks @ [\<lparr>t_type = OPERATOR, t_value = ''<='',
                                     t_start = current, t_end = current + 2\<rparr>])
      else if char = CHR ''&'' \<and> charAt input (current + 1) = Some (CHR ''&'') then
        Inr (current + 2, toks @ [\<lparr>t_type = OPERATOR, t_value = ''and'',
                                     t_start = current, t_end = current + 2\<rparr>])
      else if char = CHR ''|'' \<and> charAt input (current + 1) = Some (CHR ''|'') then
        Inr (current + 2, toks @ [\<lparr>t_type = OPERATOR, t_value = ''or'',
                                     t_start = current, t_end = current + 2\<rparr>])
      else
        Inr (current + 1, toks @ [\<lparr>t_type = SYMBOL, t_value = [char],
                                     t_start = current, t_end = current + 1\<rparr>]))"

lemma skipLineComment_ge: "current \<le> skipLineComment input current"
  by (induction input current rule: skipLineComment.induct)
     (subst skipLineComment.simps, auto)

lemma skipLineComment_gt:
  "current < length input \<Longrightarrow> input ! current \<noteq> CHR 0x0A \<Longrightarrow>
   current < skipLineComment input current"
  using skipLineComment_ge [of "current + 1" input]
  by (subst skipLineComment.simps) auto

lemma skipBlockComment_ge: "current \<le> skipBlockComment input current"
  by (induction input current rule: skipBlockComment.induct)
     (subst skipBlockComment.simps, auto)

lemma scanString_ge: "current \<le> scanString input quote current"
  by (induction input quote current rule: scanString.induct)
     (subst scanString.simps, auto)

lemma scanNumber_ge: "current \<le> scanNumber input current"
  by (induction input current rule: scanNumber.induct)
     (subst scanNumber.simps, auto)

lemma scanNumber_gt:
  "current < length input \<Longrightarrow> isDigit (input ! current) \<Longrightarrow>
   current < scanNumber input current"
  using scanNumber_ge [of "current + 1" input]
  by (subst scanNumber.simps) (auto simp: isDigit_def isNumberChar_def)

lemma scanIdentifier_ge: "current \<le> scanIdentifier input current"
  by (induction input current rule: scanIdentifier.induct)
     (subst scanIdentifier.simps, auto)

lemma scanIdentifier_gt:
  "current < length input \<Longrightarrow> isIdentStart (input ! current) \<Longrightarrow>
   current < scanIdentifier input current"
  using scanIdentifier_ge [of "current + 1" input]
  by (subst scanIdentifier.simps) (auto simp: isIdentStart_def isIdentPart_def)

text \<open>Every turn of the loop moves \<^verbatim>\<open>current\<close> forward.\<close>

lemma tokenizeStep_progress:
  assumes "current < length input" and "tokenizeStep input current toks = Inr (current', toks')"
  shows "current < current'"
proof -
  have sl: "input ! current = CHR ''/'' \<Longrightarrow> current < skipLineComment input current"
    using assms(1) by (intro skipLineComment_gt) auto
  have sb: "current < skipBlockComment input (current + 2) + 2"
    using skipBlockComment_ge [of "current + 2" input] by simp
  have ss: "current < scanString input q (current + 1) + 1" for q
    using scanString_ge [of "current + 1" input q] by simp
  show ?thesis
    using assms sl sb ss scanNumber_gt [of current input] scanIdentifier_gt [of current input]
    by (auto simp: tokenizeStep_def Let_def split: if_splits)
qed

function tokenizeLoop :: "string \<Rightarrow> nat \<Rightarrow> token list \<Rightarrow> string + token list" where
  "tokenizeLoop input current toks =
     (if current < length input then
        (case tokenizeStep input current toks of
           Inl message \<Rightarrow> Inl message
         | Inr (current', toks') \<Rightarrow> tokenizeLoop input current' toks')
      else Inr toks)"
  by pat_completeness auto
termination
  by (relation "measure (\<lambda>(input, current, toks). length input - current)")
     (auto dest: tokenizeStep_progress intro: diff_less_mono2)

declare tokenizeLoop.simps [simp del]

text \<open>\<^verbatim>\<open>tokenize(input)\<close>: the thrown message (\<open>Inl\<close>) or the tokens (\<open>Inr\<close>).\<close>

definition tokenize :: "string \<Rightarrow> string + token list" where
  "tokenize input = tokenizeLoop input 0 []"

section \<open>Parser (NeutronParser): expressions\<close>

text \<open>
  The expression methods read \<^verbatim>\<open>this.tokens\<close> and move \<^verbatim>\<open>this.position\<close> only, so
  they are functions of the token list and the position, and return the node with the
  position they leave. \<^verbatim>\<open>currentToken\<close> is \<open>None\<close> for \<^verbatim>\<open>null\<close>; \<open>nextToken\<close> is the
  position after \<^verbatim>\<open>this.nextToken()\<close>.
\<close>

definition currentToken :: "token list \<Rightarrow> nat \<Rightarrow> token option" where
  "currentToken toks pos = (if pos < length toks then Some (toks ! pos) else None)"

definition nextToken :: "token list \<Rightarrow> nat \<Rightarrow> nat" where
  "nextToken toks pos = (if pos < length toks then pos + 1 else pos)"

text \<open>\<^verbatim>\<open>this.currentToken() && this.currentToken().value === v\<close>.\<close>

definition currentIs :: "token list \<Rightarrow> nat \<Rightarrow> string \<Rightarrow> bool" where
  "currentIs toks pos v = (case currentToken toks pos of None \<Rightarrow> False | Some t \<Rightarrow> t_value t = v)"

text \<open>
  The message of what \<^verbatim>\<open>throw new Error(`... at position ${this.currentToken().start}`)\<close>
  throws. With no current token the template itself throws a \<^verbatim>\<open>TypeError\<close>, whose message
  is the engine's (V8's is taken here); so does reading \<^verbatim>\<open>.value\<close> of \<^verbatim>\<open>null\<close>.
\<close>

definition nullStartMessage :: string where
  "nullStartMessage = ''Cannot read properties of null (reading '' @ [CHR 0x27] @ ''start''
     @ [CHR 0x27] @ '')''"

definition nullValueMessage :: string where
  "nullValueMessage = ''Cannot read properties of null (reading '' @ [CHR 0x27] @ ''value''
     @ [CHR 0x27] @ '')''"

definition atPosition :: "token list \<Rightarrow> nat \<Rightarrow> string \<Rightarrow> string" where
  "atPosition toks pos what =
     (case currentToken toks pos of
        None \<Rightarrow> nullStartMessage
      | Some t \<Rightarrow> what @ '' at position '' @ showNat (t_start t))"

definition quoted :: "string \<Rightarrow> string" where
  "quoted s = [CHR 0x27] @ s @ [CHR 0x27]"

text \<open>
  \<^verbatim>\<open>Number.isInteger(Number(text))\<close> for the text of a \<^verbatim>\<open>NUMBER\<close> token (digits and
  dots, a digit first). \<^verbatim>\<open>Number(text)\<close> is the double nearest to the decimal, ties to
  the even mantissa (as V8 computes it); with more than one dot it is \<^verbatim>\<open>NaN\<close>, and from
  \<open>2\<^sup>1\<^sup>0\<^sup>2\<^sup>4 - 2\<^sup>9\<^sup>7\<^sup>0\<close> on it is \<^verbatim>\<open>Infinity\<close>; neither is an integer. A finite double from
  \<open>2\<^sup>5\<^sup>2\<close> on is an integer. Below that, a decimal \<open>w + f\<close> with \<open>0 < f < 1\<close> becomes an
  integer when it is rounded down to \<open>w\<close> or up to \<open>w + 1\<close>: when \<open>f\<close> is at most half the
  distance from \<open>w\<close> to the next double, or \<open>1 - f\<close> at most half the distance from
  \<open>w + 1\<close> to the double before it (both integers have an even mantissa, so a tie goes
  to them).
\<close>

definition decimalValue :: "string \<Rightarrow> nat" where
  "decimalValue ds = foldl (\<lambda>acc c. 10 * acc + (of_char c - 48)) 0 ds"

text \<open>The binary exponent of an integer \<open>m\<close> from 1 to \<open>2\<^sup>5\<^sup>2\<close>: \<open>2\<^sup>e \<le> m < 2\<^sup>e\<^sup>+\<^sup>1\<close>.\<close>

definition binaryExponent :: "nat \<Rightarrow> nat" where
  "binaryExponent m = length (filter (\<lambda>j. 2 ^ (j + 1) \<le> m) [0..<52])"

definition numberIsInteger :: "string \<Rightarrow> bool" where
  "numberIsInteger v =
     (let whole = takeWhile (\<lambda>c. c \<noteq> CHR ''.'') v; rest = dropWhile (\<lambda>c. c \<noteq> CHR ''.'') v;
          w = decimalValue whole in
      if rest = [] then w < 2 ^ 1024 - 2 ^ 970
      else if CHR ''.'' \<in> set (tl rest) then False
      else
        (let digits = tl rest; f = decimalValue digits; one = 10 ^ length digits;
             up = (if w = 0 then 1075 else 53 - binaryExponent w);
             down = (if w + 1 = 2 ^ binaryExponent (w + 1) then 54 - binaryExponent (w + 1)
                     else 53 - binaryExponent (w + 1)) in
         w < 2 ^ 1024 - 2 ^ 970 \<and>
         (2 ^ 52 \<le> w \<or> f = 0 \<or> f * 2 ^ up \<le> one \<or> (one - f) * 2 ^ down \<le> one)))"

text \<open>
  The expression methods call each other and, through \<^verbatim>\<open>parsePrimary\<close>, call
  \<^verbatim>\<open>parseExpression\<close> again. Each is written here with the recursive entry
  \<^verbatim>\<open>this.parseExpression()\<close> as its parameter \<open>expression\<close> (a function of the
  position), and \<open>parseExpression\<close> closes the recursion on the fuel: a run with fuel
  \<open>n\<close> may nest expressions \<open>n\<close> deep and turn each loop \<open>n\<close> times, and answers
  \<open>Timeout\<close> beyond that.
\<close>

text \<open>
  \<^verbatim>\<open>list.push(this.parseExpression()); while (current is ',') { next; list.push(...) }\<close>,
  the loop of \<^verbatim>\<open>parseCallExpression\<close> and of \<^verbatim>\<open>parseArrayExpression\<close>.
\<close>

primrec expressionList ::
  "nat \<Rightarrow> (nat \<Rightarrow> (expr, nat) result) \<Rightarrow> token list \<Rightarrow> expr list \<Rightarrow> nat \<Rightarrow> (expr list, nat) result"
where
  "expressionList 0 expression toks acc pos = Timeout"
| "expressionList (Suc n) expression toks acc pos =
     (case expression pos of
        Ok x pos1 \<Rightarrow>
          if currentIs toks pos1 '','' then
            expressionList n expression toks (acc @ [x]) (nextToken toks pos1)
          else Ok (acc @ [x]) pos1
      | Throw m p \<Rightarrow> Throw m p
      | Timeout \<Rightarrow> Timeout)"

definition parseCallExpression ::
  "nat \<Rightarrow> (nat \<Rightarrow> (expr, nat) result) \<Rightarrow> token list \<Rightarrow> expr \<Rightarrow> nat \<Rightarrow> (expr, nat) result"
where
  "parseCallExpression n expression toks callee pos =
     (if \<not> currentIs toks pos ''('' then
        Throw (atPosition toks pos (''Expected '' @ quoted ''('' @ '' for function call'')) pos
      else
        (let pos1 = nextToken toks pos in
         case (if currentToken toks pos1 \<noteq> None \<and> \<not> currentIs toks pos1 '')''
               then expressionList n expression toks [] pos1 else Ok [] pos1) of
           Ok args pos2 \<Rightarrow>
             (case currentToken toks pos2 of
                None \<Rightarrow> Throw nullStartMessage pos2
              | Some endToken \<Rightarrow>
                  if t_value endToken \<noteq> '')'' then
                    Throw (atPosition toks pos2
                             (''Expected '' @ quoted '')'' @ '' to close function call'')) pos2
                  else Ok (CallExpression callee args (expr_start callee) (t_end endToken))
                          (nextToken toks pos2))
         | Throw m p \<Rightarrow> Throw m p
         | Timeout \<Rightarrow> Timeout))"

definition parseMemberExpression ::
  "nat \<Rightarrow> (nat \<Rightarrow> (expr, nat) result) \<Rightarrow> token list \<Rightarrow> expr \<Rightarrow> nat \<Rightarrow> (expr, nat) result"
where
  "parseMemberExpression n expression toks obj pos =
     (if \<not> currentIs toks pos ''.'' then
        Throw (atPosition toks pos (''Expected '' @ quoted ''.'' @ '' for member access'')) pos
      else
        (let pos1 = nextToken toks pos in
         case currentToken toks pos1 of
           None \<Rightarrow> Throw nullStartMessage pos1
         | Some tok \<Rightarrow>
             if t_type tok \<noteq> IDENTIFIER then
               Throw (atPosition toks pos1 (''Expected identifier after '' @ quoted ''.'')) pos1
             else
               (let property = Identifier (t_value tok) (t_start tok) (t_end tok);
                    pos2 = nextToken toks pos1;
                    member = MemberExpression obj property (expr_start obj) (expr_end property) in
                if currentIs toks pos2 ''('' then parseCallExpression n expression toks member pos2
                else Ok member pos2)))"

definition parseArrayExpression ::
  "nat \<Rightarrow> (nat \<Rightarrow> (expr, nat) result) \<Rightarrow> token list \<Rightarrow> nat \<Rightarrow> (expr, nat) result"
where
  "parseArrayExpression n expression toks pos =
     (case currentToken toks pos of
        None \<Rightarrow> Throw nullStartMessage pos
      | Some startToken \<Rightarrow>
          (let pos1 = nextToken toks pos in
           case (if currentToken toks pos1 \<noteq> None \<and> \<not> currentIs toks pos1 '']''
                 then expressionList n expression toks [] pos1 else Ok [] pos1) of
             Ok elements pos2 \<Rightarrow>
               (case currentToken toks pos2 of
                  None \<Rightarrow> Throw nullStartMessage pos2
                | Some endToken \<Rightarrow>
                    if t_value endToken \<noteq> '']'' then
                      Throw (atPosition toks pos2
                               (''Expected '' @ quoted '']'' @ '' to close array'')) pos2
                    else Ok (ArrayExpression elements (t_start startToken) (t_end endToken))
                            (nextToken toks pos2))
           | Throw m p \<Rightarrow> Throw m p
           | Timeout \<Rightarrow> Timeout))"

definition parseObjectProperty ::
  "(nat \<Rightarrow> (expr, nat) result) \<Rightarrow> token list \<Rightarrow> nat \<Rightarrow> (expr, nat) result"
where
  "parseObjectProperty expression toks pos =
     (case currentToken toks pos of
        None \<Rightarrow> Throw nullStartMessage pos
      | Some k \<Rightarrow>
          if t_type k \<noteq> STRING then
            Throw (atPosition toks pos ''Expected string key for object property'') pos
          else
            (let pos1 = nextToken toks pos in
             if \<not> currentIs toks pos1 '':'' then
               Throw (atPosition toks pos1
                        (''Expected '' @ quoted '':'' @ '' after object property key'')) pos1
             else
               (case expression (nextToken toks pos1) of
                  Ok v pos2 \<Rightarrow> Ok (Property k v (t_start k) (expr_end v)) pos2
                | Throw m p \<Rightarrow> Throw m p
                | Timeout \<Rightarrow> Timeout)))"

text \<open>The same loop over \<^verbatim>\<open>parseObjectProperty\<close>, in \<^verbatim>\<open>parseObjectExpression\<close>.\<close>

primrec propertyList ::
  "nat \<Rightarrow> (nat \<Rightarrow> (expr, nat) result) \<Rightarrow> token list \<Rightarrow> expr list \<Rightarrow> nat \<Rightarrow> (expr list, nat) result"
where
  "propertyList 0 expression toks acc pos = Timeout"
| "propertyList (Suc n) expression toks acc pos =
     (case parseObjectProperty expression toks pos of
        Ok x pos1 \<Rightarrow>
          if currentIs toks pos1 '','' then
            propertyList n expression toks (acc @ [x]) (nextToken toks pos1)
          else Ok (acc @ [x]) pos1
      | Throw m p \<Rightarrow> Throw m p
      | Timeout \<Rightarrow> Timeout)"

definition parseObjectExpression ::
  "nat \<Rightarrow> (nat \<Rightarrow> (expr, nat) result) \<Rightarrow> token list \<Rightarrow> nat \<Rightarrow> (expr, nat) result"
where
  "parseObjectExpression n expression toks pos =
     (case currentToken toks pos of
        None \<Rightarrow> Throw nullStartMessage pos
      | Some startToken \<Rightarrow>
          (let pos1 = nextToken toks pos in
           case (if currentToken toks pos1 \<noteq> None \<and> \<not> currentIs toks pos1 ''}''
                 then propertyList n expression toks [] pos1 else Ok [] pos1) of
             Ok properties pos2 \<Rightarrow>
               (case currentToken toks pos2 of
                  None \<Rightarrow> Throw nullStartMessage pos2
                | Some endToken \<Rightarrow>
                    if t_value endToken \<noteq> ''}'' then
                      Throw (atPosition toks pos2
                               (''Expected '' @ quoted ''}'' @ '' to close object'')) pos2
                    else Ok (ObjectExpression properties (t_start startToken) (t_end endToken))
                            (nextToken toks pos2))
           | Throw m p \<Rightarrow> Throw m p
           | Timeout \<Rightarrow> Timeout))"

definition parsePrimary ::
  "nat \<Rightarrow> (nat \<Rightarrow> (expr, nat) result) \<Rightarrow> token list \<Rightarrow> nat \<Rightarrow> (expr, nat) result"
where
  "parsePrimary n expression toks pos =
     (case currentToken toks pos of
        None \<Rightarrow> Throw ''Unexpected end of input'' pos
      | Some tok \<Rightarrow>
          if t_type tok = NUMBER then
            Ok (Literal (NumberValue (numberIsInteger (t_value tok))) (t_value tok)
                  (t_start tok) (t_end tok)) (nextToken toks pos)
          else if t_type tok = STRING then
            Ok (Literal (StringValue (t_value tok)) (t_value tok) (t_start tok) (t_end tok))
               (nextToken toks pos)
          else if t_value tok = ''true'' \<or> t_value tok = ''false'' then
            Ok (Literal (BooleanValue (t_value tok = ''true'')) (t_value tok)
                  (t_start tok) (t_end tok)) (nextToken toks pos)
          else if t_value tok = ''nil'' then
            Ok (Literal NullValue (t_value tok) (t_start tok) (t_end tok)) (nextToken toks pos)
          else if t_type tok = IDENTIFIER then
            (let identifier = Identifier (t_value tok) (t_start tok) (t_end tok);
                 pos1 = nextToken toks pos in
             if currentIs toks pos1 ''('' then parseCallExpression n expression toks identifier pos1
             else if currentIs toks pos1 ''.'' then
               parseMemberExpression n expression toks identifier pos1
             else Ok identifier pos1)
          else if t_value tok = ''('' then
            (case expression (nextToken toks pos) of
               Ok x pos1 \<Rightarrow>
                 if \<not> currentIs toks pos1 '')'' then
                   Throw (atPosition toks pos1 (''Expected '' @ quoted '')'')) pos1
                 else Ok x (nextToken toks pos1)
             | Throw m p \<Rightarrow> Throw m p
             | Timeout \<Rightarrow> Timeout)
          else if t_value tok = ''['' then parseArrayExpression n expression toks pos
          else if t_value tok = ''{'' then parseObjectExpression n expression toks pos
          else Throw (''Unexpected token '' @ quoted (t_value tok) @ '' at position ''
                        @ showNat (t_start tok)) pos)"

primrec parseUnary ::
  "nat \<Rightarrow> (nat \<Rightarrow> (expr, nat) result) \<Rightarrow> token list \<Rightarrow> nat \<Rightarrow> (expr, nat) result"
where
  "parseUnary 0 expression toks pos = Timeout"
| "parseUnary (Suc n) expression toks pos =
     (case currentToken toks pos of
        None \<Rightarrow> parsePrimary n expression toks pos
      | Some opToken \<Rightarrow>
          if t_value opToken = ''not'' then
            (case parseUnary n expression toks (nextToken toks pos) of
               Ok argument pos1 \<Rightarrow>
                 Ok (UnaryExpression ''not'' argument (t_start opToken) (expr_end argument)) pos1
             | Throw m p \<Rightarrow> Throw m p
             | Timeout \<Rightarrow> Timeout)
          else parsePrimary n expression toks pos)"

text \<open>
  The six binary levels. Each \<open>...Loop\<close> is the \<^verbatim>\<open>while\<close> of its method, entered with
  the expression parsed so far.
\<close>

primrec multiplicativeLoop ::
  "nat \<Rightarrow> (nat \<Rightarrow> (expr, nat) result) \<Rightarrow> token list \<Rightarrow> expr \<Rightarrow> nat \<Rightarrow> (expr, nat) result"
where
  "multiplicativeLoop 0 expression toks x pos = Timeout"
| "multiplicativeLoop (Suc n) expression toks x pos =
     (case currentToken toks pos of
        None \<Rightarrow> Ok x pos
      | Some opToken \<Rightarrow>
          if t_value opToken \<in> set [''*'', ''/'', ''%''] then
            (case parseUnary n expression toks (nextToken toks pos) of
               Ok right pos1 \<Rightarrow>
                 multiplicativeLoop n expression toks
                   (BinaryExpression (t_value opToken) x right (expr_start x) (expr_end right)) pos1
             | Throw m p \<Rightarrow> Throw m p
             | Timeout \<Rightarrow> Timeout)
          else Ok x pos)"

definition parseMultiplicative ::
  "nat \<Rightarrow> (nat \<Rightarrow> (expr, nat) result) \<Rightarrow> token list \<Rightarrow> nat \<Rightarrow> (expr, nat) result"
where
  "parseMultiplicative n expression toks pos =
     (case parseUnary n expression toks pos of
        Ok x pos1 \<Rightarrow> multiplicativeLoop n expression toks x pos1
      | Throw m p \<Rightarrow> Throw m p
      | Timeout \<Rightarrow> Timeout)"

primrec additiveLoop ::
  "nat \<Rightarrow> (nat \<Rightarrow> (expr, nat) result) \<Rightarrow> token list \<Rightarrow> expr \<Rightarrow> nat \<Rightarrow> (expr, nat) result"
where
  "additiveLoop 0 expression toks x pos = Timeout"
| "additiveLoop (Suc n) expression toks x pos =
     (case currentToken toks pos of
        None \<Rightarrow> Ok x pos
      | Some opToken \<Rightarrow>
          if t_value opToken = ''+'' \<or> t_value opToken = ''-'' then
            (case parseMultiplicative n expression toks (nextToken toks pos) of
               Ok right pos1 \<Rightarrow>
                 additiveLoop n expression toks
                   (BinaryExpression (t_value opToken) x right (expr_start x) (expr_end right)) pos1
             | Throw m p \<Rightarrow> Throw m p
             | Timeout \<Rightarrow> Timeout)
          else Ok x pos)"

definition parseAdditive ::
  "nat \<Rightarrow> (nat \<Rightarrow> (expr, nat) result) \<Rightarrow> token list \<Rightarrow> nat \<Rightarrow> (expr, nat) result"
where
  "parseAdditive n expression toks pos =
     (case parseMultiplicative n expression toks pos of
        Ok x pos1 \<Rightarrow> additiveLoop n expression toks x pos1
      | Throw m p \<Rightarrow> Throw m p
      | Timeout \<Rightarrow> Timeout)"

primrec relationalLoop ::
  "nat \<Rightarrow> (nat \<Rightarrow> (expr, nat) result) \<Rightarrow> token list \<Rightarrow> expr \<Rightarrow> nat \<Rightarrow> (expr, nat) result"
where
  "relationalLoop 0 expression toks x pos = Timeout"
| "relationalLoop (Suc n) expression toks x pos =
     (case currentToken toks pos of
        None \<Rightarrow> Ok x pos
      | Some opToken \<Rightarrow>
          if t_value opToken \<in> set [''<'', ''<='', ''>'', ''>=''] then
            (case parseAdditive n expression toks (nextToken toks pos) of
               Ok right pos1 \<Rightarrow>
                 relationalLoop n expression toks
                   (BinaryExpression (t_value opToken) x right (expr_start x) (expr_end right)) pos1
             | Throw m p \<Rightarrow> Throw m p
             | Timeout \<Rightarrow> Timeout)
          else Ok x pos)"

definition parseRelational ::
  "nat \<Rightarrow> (nat \<Rightarrow> (expr, nat) result) \<Rightarrow> token list \<Rightarrow> nat \<Rightarrow> (expr, nat) result"
where
  "parseRelational n expression toks pos =
     (case parseAdditive n expression toks pos of
        Ok x pos1 \<Rightarrow> relationalLoop n expression toks x pos1
      | Throw m p \<Rightarrow> Throw m p
      | Timeout \<Rightarrow> Timeout)"

primrec equalityLoop ::
  "nat \<Rightarrow> (nat \<Rightarrow> (expr, nat) result) \<Rightarrow> token list \<Rightarrow> expr \<Rightarrow> nat \<Rightarrow> (expr, nat) result"
where
  "equalityLoop 0 expression toks x pos = Timeout"
| "equalityLoop (Suc n) expression toks x pos =
     (case currentToken toks pos of
        None \<Rightarrow> Ok x pos
      | Some opToken \<Rightarrow>
          if t_value opToken = ''=='' \<or> t_value opToken = ''!='' then
            (case parseRelational n expression toks (nextToken toks pos) of
               Ok right pos1 \<Rightarrow>
                 equalityLoop n expression toks
                   (BinaryExpression (t_value opToken) x right (expr_start x) (expr_end right)) pos1
             | Throw m p \<Rightarrow> Throw m p
             | Timeout \<Rightarrow> Timeout)
          else Ok x pos)"

definition parseEquality ::
  "nat \<Rightarrow> (nat \<Rightarrow> (expr, nat) result) \<Rightarrow> token list \<Rightarrow> nat \<Rightarrow> (expr, nat) result"
where
  "parseEquality n expression toks pos =
     (case parseRelational n expression toks pos of
        Ok x pos1 \<Rightarrow> equalityLoop n expression toks x pos1
      | Throw m p \<Rightarrow> Throw m p
      | Timeout \<Rightarrow> Timeout)"

primrec logicalAndLoop ::
  "nat \<Rightarrow> (nat \<Rightarrow> (expr, nat) result) \<Rightarrow> token list \<Rightarrow> expr \<Rightarrow> nat \<Rightarrow> (expr, nat) result"
where
  "logicalAndLoop 0 expression toks x pos = Timeout"
| "logicalAndLoop (Suc n) expression toks x pos =
     (if currentIs toks pos ''and'' then
        (case parseEquality n expression toks (nextToken toks pos) of
           Ok right pos1 \<Rightarrow>
             logicalAndLoop n expression toks
               (LogicalExpression ''and'' x right (expr_start x) (expr_end right)) pos1
         | Throw m p \<Rightarrow> Throw m p
         | Timeout \<Rightarrow> Timeout)
      else Ok x pos)"

definition parseLogicalAnd ::
  "nat \<Rightarrow> (nat \<Rightarrow> (expr, nat) result) \<Rightarrow> token list \<Rightarrow> nat \<Rightarrow> (expr, nat) result"
where
  "parseLogicalAnd n expression toks pos =
     (case parseEquality n expression toks pos of
        Ok x pos1 \<Rightarrow> logicalAndLoop n expression toks x pos1
      | Throw m p \<Rightarrow> Throw m p
      | Timeout \<Rightarrow> Timeout)"

primrec logicalOrLoop ::
  "nat \<Rightarrow> (nat \<Rightarrow> (expr, nat) result) \<Rightarrow> token list \<Rightarrow> expr \<Rightarrow> nat \<Rightarrow> (expr, nat) result"
where
  "logicalOrLoop 0 expression toks x pos = Timeout"
| "logicalOrLoop (Suc n) expression toks x pos =
     (if currentIs toks pos ''or'' then
        (case parseLogicalAnd n expression toks (nextToken toks pos) of
           Ok right pos1 \<Rightarrow>
             logicalOrLoop n expression toks
               (LogicalExpression ''or'' x right (expr_start x) (expr_end right)) pos1
         | Throw m p \<Rightarrow> Throw m p
         | Timeout \<Rightarrow> Timeout)
      else Ok x pos)"

definition parseLogicalOr ::
  "nat \<Rightarrow> (nat \<Rightarrow> (expr, nat) result) \<Rightarrow> token list \<Rightarrow> nat \<Rightarrow> (expr, nat) result"
where
  "parseLogicalOr n expression toks pos =
     (case parseLogicalAnd n expression toks pos of
        Ok x pos1 \<Rightarrow> logicalOrLoop n expression toks x pos1
      | Throw m p \<Rightarrow> Throw m p
      | Timeout \<Rightarrow> Timeout)"

text \<open>\<^verbatim>\<open>parseExpression() { return this.parseLogicalOr(); }\<close>, with the recursion closed.\<close>

primrec parseExpression :: "nat \<Rightarrow> token list \<Rightarrow> nat \<Rightarrow> (expr, nat) result" where
  "parseExpression 0 toks pos = Timeout"
| "parseExpression (Suc n) toks pos = parseLogicalOr n (parseExpression n toks) toks pos"

section \<open>Parser (NeutronParser): statements\<close>

text \<open>The fields of a \<^verbatim>\<open>NeutronParser\<close> object, and a freshly constructed one.\<close>

record parser =
  p_input :: string
  p_tokens :: "token list"
  p_position :: nat
  p_errors :: "syntaxError list"

definition newParser :: parser where
  "newParser = \<lparr>p_input = [], p_tokens = [], p_position = 0, p_errors = []\<rparr>"

text \<open>\<^verbatim>\<open>this.currentToken()\<close>, \<^verbatim>\<open>this.nextToken()\<close> and the test of the current value, on the object.\<close>

definition cur :: "parser \<Rightarrow> token option" where
  "cur st = currentToken (p_tokens st) (p_position st)"

definition advance :: "parser \<Rightarrow> parser" where
  "advance st = st\<lparr>p_position := nextToken (p_tokens st) (p_position st)\<rparr>"

definition curIs :: "parser \<Rightarrow> string \<Rightarrow> bool" where
  "curIs st v = currentIs (p_tokens st) (p_position st) v"

definition atPos :: "parser \<Rightarrow> string \<Rightarrow> string" where
  "atPos st what = atPosition (p_tokens st) (p_position st) what"

definition addError :: "string \<Rightarrow> nat \<Rightarrow> nat \<Rightarrow> parser \<Rightarrow> parser" where
  "addError message s e st =
     st\<lparr>p_errors := p_errors st @ [\<lparr>se_message = message, se_start = s, se_end = e\<rparr>]\<rparr>"

function findEndOfLine :: "string \<Rightarrow> nat \<Rightarrow> nat" where
  "findEndOfLine text i =
     (if i < length text then
        (if text ! i = CHR 0x0A \<or> text ! i = CHR 0x0D then i else findEndOfLine text (i + 1))
      else length text)"
  by pat_completeness auto
termination
  by (relation "measure (\<lambda>(text, i). length text - i)") auto

declare findEndOfLine.simps [simp del]

text \<open>\<^verbatim>\<open>this.parseExpression()\<close> on the object: only the position moves.\<close>

definition parseExpressionAt :: "nat \<Rightarrow> parser \<Rightarrow> (expr, parser) result" where
  "parseExpressionAt n st =
     (case parseExpression n (p_tokens st) (p_position st) of
        Ok x pos \<Rightarrow> Ok x (st\<lparr>p_position := pos\<rparr>)
      | Throw m pos \<Rightarrow> Throw m (st\<lparr>p_position := pos\<rparr>)
      | Timeout \<Rightarrow> Timeout)"

definition isStatementStart :: "token \<Rightarrow> bool" where
  "isStatementStart tok \<longleftrightarrow>
     t_value tok \<in> set [''var'', ''if'', ''while'', ''for'', ''fun'', ''class'', ''return'']
     \<or> t_type tok = IDENTIFIER"

function skipToNextStatement :: "parser \<Rightarrow> parser" where
  "skipToNextStatement st =
     (case cur st of
        None \<Rightarrow> st
      | Some tok \<Rightarrow>
          if t_value tok = '';'' then advance st
          else if t_value tok = ''}'' \<or> t_value tok = ''{'' then st
          else if isStatementStart tok then st
          else skipToNextStatement (advance st))"
  by pat_completeness auto
termination
  by (relation "measure (\<lambda>st. length (p_tokens st) - p_position st)")
     (auto simp: cur_def advance_def currentToken_def nextToken_def split: if_splits)

declare skipToNextStatement.simps [simp del]

definition isTypeKeyword :: "string \<Rightarrow> bool" where
  "isTypeKeyword v \<longleftrightarrow>
     v \<in> set [''int'', ''float'', ''string'', ''bool'', ''array'', ''object'', ''any'']"

definition parseVariableDeclaration :: "nat \<Rightarrow> parser \<Rightarrow> (stmt, parser) result" where
  "parseVariableDeclaration n st =
     (case cur st of
        None \<Rightarrow> Throw nullStartMessage st
      | Some startToken \<Rightarrow>
          (let st1 = advance st;
               typed = (case cur st1 of None \<Rightarrow> False | Some t \<Rightarrow> isTypeKeyword (t_value t));
               declaredType = (if typed then map_option t_value (cur st1) else None);
               st2 = (if typed then advance st1 else st1) in
           case cur st2 of
             None \<Rightarrow> Throw nullStartMessage st2
           | Some nameToken \<Rightarrow>
               if t_type nameToken \<noteq> IDENTIFIER then
                 Throw (atPos st2 ''Expected identifier'') st2
               else
                 (let name = t_value nameToken; st3 = advance st2 in
                  case (if curIs st3 ''='' then
                          (case parseExpressionAt n (advance st3) of
                             Ok x s \<Rightarrow> Ok (Some x) s
                           | Throw m s \<Rightarrow> Throw m s
                           | Timeout \<Rightarrow> Timeout)
                        else Ok None st3) of
                    Ok ini st4 \<Rightarrow>
                      if curIs st4 '';'' then
                        (let st5 = advance st4 in
                         Ok (VariableDeclaration declaredType name ini (t_start startToken)
                               (case cur st5 of Some t \<Rightarrow> t_start t
                                | None \<Rightarrow> t_end nameToken + 1)) st5)
                      else
                        (let lineEnd = findEndOfLine (p_input st4) (t_end nameToken) in
                         Ok (VariableDeclaration declaredType name ini (t_start startToken)
                               (t_end nameToken))
                            (addError ''Missing semicolon at end of variable declaration''
                               (t_end nameToken) lineEnd st4))
                  | Throw m s \<Rightarrow> Throw m s
                  | Timeout \<Rightarrow> Timeout)))"

definition parseAssignmentExpression :: "nat \<Rightarrow> expr \<Rightarrow> parser \<Rightarrow> (stmt, parser) result" where
  "parseAssignmentExpression n left st =
     (if \<not> curIs st ''='' then
        Throw (atPos st (''Expected '' @ quoted ''='' @ '' in assignment'')) st
      else
        (case parseExpressionAt n (advance st) of
           Ok right st1 \<Rightarrow>
             if curIs st1 '';'' then
               (let st2 = advance st1 in
                Ok (AssignmentExpression ''='' left right (expr_start left)
                      (case cur st2 of Some t \<Rightarrow> t_start t | None \<Rightarrow> expr_end right + 1)) st2)
             else
               (let lineEnd = findEndOfLine (p_input st1) (expr_end right) in
                Ok (AssignmentExpression ''='' left right (expr_start left) (expr_end right))
                   (addError ''Missing semicolon at end of assignment''
                      (expr_end right) lineEnd st1))
         | Throw m s \<Rightarrow> Throw m s
         | Timeout \<Rightarrow> Timeout))"

text \<open>\<^verbatim>\<open>expr.type === 'Identifier'\<close>.\<close>

fun isIdentifier :: "expr \<Rightarrow> bool" where
  "isIdentifier (Identifier name s e) = True"
| "isIdentifier other = False"

definition parseExpressionStatement :: "nat \<Rightarrow> parser \<Rightarrow> (stmt, parser) result" where
  "parseExpressionStatement n st =
     (case parseExpressionAt n st of
        Ok x st1 \<Rightarrow>
          if isIdentifier x \<and> curIs st1 ''='' then parseAssignmentExpression n x st1
          else if curIs st1 '';'' then
            (let st2 = advance st1 in
             Ok (ExpressionStatement x (expr_start x)
                   (case cur st2 of Some t \<Rightarrow> t_start t | None \<Rightarrow> expr_end x + 1)) st2)
          else
            (let lineEnd = findEndOfLine (p_input st1) (expr_end x) in
             Ok (ExpressionStatement x (expr_start x) (expr_end x))
                (addError ''Missing semicolon at end of statement'' (expr_end x) lineEnd st1))
      | Throw m s \<Rightarrow> Throw m s
      | Timeout \<Rightarrow> Timeout)"

definition parseReturnStatement :: "nat \<Rightarrow> parser \<Rightarrow> (stmt, parser) result" where
  "parseReturnStatement n st =
     (case cur st of
        None \<Rightarrow> Throw nullStartMessage st
      | Some startToken \<Rightarrow>
          (let st1 = advance st in
           case (if cur st1 \<noteq> None \<and> \<not> curIs st1 '';'' \<and> \<not> curIs st1 ''}''
                    \<and> \<not> curIs st1 [CHR 0x0A] then
                   (case parseExpressionAt n st1 of
                      Ok x s \<Rightarrow> Ok (Some x) s
                    | Throw m s \<Rightarrow> Throw m s
                    | Timeout \<Rightarrow> Timeout)
                 else Ok None st1) of
             Ok argument st2 \<Rightarrow>
               Ok (ReturnStatement argument (t_start startToken)
                     (case argument of Some x \<Rightarrow> expr_end x | None \<Rightarrow> t_end startToken + 6))
                  (if curIs st2 '';'' then advance st2 else st2)
           | Throw m s \<Rightarrow> Throw m s
           | Timeout \<Rightarrow> Timeout))"

text \<open>
  The statement methods reach \<^verbatim>\<open>parseStatement\<close> again through \<^verbatim>\<open>parseBlock\<close>. As for
  expressions, each takes the recursive entry \<^verbatim>\<open>this.parseStatement()\<close> as its parameter
  \<open>statement\<close>, and \<open>parseStatement\<close> closes the recursion on the fuel.
\<close>

text \<open>\<^verbatim>\<open>if (stmt) list.push(stmt)\<close>.\<close>

definition pushStatement :: "'a list \<Rightarrow> 'a option \<Rightarrow> 'a list" where
  "pushStatement xs r = (case r of None \<Rightarrow> xs | Some x \<Rightarrow> xs @ [x])"

text \<open>The \<^verbatim>\<open>while\<close> of the braces form of \<^verbatim>\<open>parseBlock\<close>.\<close>

primrec blockLoop ::
  "nat \<Rightarrow> (parser \<Rightarrow> (stmt option, parser) result) \<Rightarrow> stmt list \<Rightarrow> parser
     \<Rightarrow> (stmt list, parser) result"
where
  "blockLoop 0 statement body st = Timeout"
| "blockLoop (Suc n) statement body st =
     (if p_position st < length (p_tokens st) \<and> \<not> curIs st ''}'' then
        (case statement st of
           Ok r st1 \<Rightarrow> blockLoop n statement (pushStatement body r) st1
         | Throw m s \<Rightarrow> Throw m s
         | Timeout \<Rightarrow> Timeout)
      else Ok body st)"

definition parseBlock ::
  "nat \<Rightarrow> (parser \<Rightarrow> (stmt option, parser) result) \<Rightarrow> parser \<Rightarrow> (stmt, parser) result"
where
  "parseBlock n statement st =
     (if curIs st ''{'' then
        (case blockLoop n statement [] (advance st) of
           Ok body st1 \<Rightarrow> Ok (BlockStatement (map Some body)) (advance st1)
         | Throw m s \<Rightarrow> Throw m s
         | Timeout \<Rightarrow> Timeout)
      else
        (case statement st of
           Ok r st1 \<Rightarrow> Ok (BlockStatement [r]) st1
         | Throw m s \<Rightarrow> Throw m s
         | Timeout \<Rightarrow> Timeout))"

text \<open>\<^verbatim>\<open>end: this.currentToken() ? this.currentToken().end : startToken.end\<close>.\<close>

definition endOrAt :: "parser \<Rightarrow> token \<Rightarrow> nat" where
  "endOrAt st startToken = (case cur st of Some t \<Rightarrow> t_end t | None \<Rightarrow> t_end startToken)"

primrec parseIfStatement ::
  "nat \<Rightarrow> (parser \<Rightarrow> (stmt option, parser) result) \<Rightarrow> parser \<Rightarrow> (stmt, parser) result"
where
  "parseIfStatement 0 statement st = Timeout"
| "parseIfStatement (Suc n) statement st =
     (case cur st of
        None \<Rightarrow> Throw nullStartMessage st
      | Some startToken \<Rightarrow>
          (let st1 = advance st in
           if \<not> curIs st1 ''('' then
             Throw (atPos st1 (''Expected '' @ quoted ''('' @ '' after '' @ quoted ''if'')) st1
           else
             (case parseExpressionAt n (advance st1) of
                Ok test st2 \<Rightarrow>
                  if \<not> curIs st2 '')'' then
                    Throw (atPos st2 (''Expected '' @ quoted '')'' @ '' after if condition'')) st2
                  else
                    (case parseBlock n statement (advance st2) of
                       Ok consequent st3 \<Rightarrow>
                         if curIs st3 ''else'' then
                           (let st4 = advance st3 in
                            case (if curIs st4 ''if'' then parseIfStatement n statement st4
                                  else parseBlock n statement st4) of
                              Ok alternate st5 \<Rightarrow>
                                Ok (IfStatement test consequent (Some alternate)
                                      (t_start startToken) (endOrAt st5 startToken)) st5
                            | Throw m s \<Rightarrow> Throw m s
                            | Timeout \<Rightarrow> Timeout)
                         else
                           Ok (IfStatement test consequent None
                                 (t_start startToken) (endOrAt st3 startToken)) st3
                     | Throw m s \<Rightarrow> Throw m s
                     | Timeout \<Rightarrow> Timeout)
              | Throw m s \<Rightarrow> Throw m s
              | Timeout \<Rightarrow> Timeout)))"

definition parseWhileStatement ::
  "nat \<Rightarrow> (parser \<Rightarrow> (stmt option, parser) result) \<Rightarrow> parser \<Rightarrow> (stmt, parser) result"
where
  "parseWhileStatement n statement st =
     (case cur st of
        None \<Rightarrow> Throw nullStartMessage st
      | Some startToken \<Rightarrow>
          (let st1 = advance st in
           if \<not> curIs st1 ''('' then
             Throw (atPos st1 (''Expected '' @ quoted ''('' @ '' after '' @ quoted ''while'')) st1
           else
             (case parseExpressionAt n (advance st1) of
                Ok test st2 \<Rightarrow>
                  if \<not> curIs st2 '')'' then
                    Throw (atPos st2 (''Expected '' @ quoted '')'' @ '' after while condition'')) st2
                  else
                    (case parseBlock n statement (advance st2) of
                       Ok body st3 \<Rightarrow>
                         Ok (WhileStatement test body (t_start startToken)
                               (endOrAt st3 startToken)) st3
                     | Throw m s \<Rightarrow> Throw m s
                     | Timeout \<Rightarrow> Timeout)
              | Throw m s \<Rightarrow> Throw m s
              | Timeout \<Rightarrow> Timeout)))"

text \<open>
  The three clauses of \<^verbatim>\<open>parseForStatement\<close>. Each reads \<^verbatim>\<open>this.currentToken().value\<close>
  without a test for \<^verbatim>\<open>null\<close>, which throws a \<^verbatim>\<open>TypeError\<close> at the end of the tokens.
\<close>

definition parseForInit :: "nat \<Rightarrow> parser \<Rightarrow> ((stmt + expr) option, parser) result" where
  "parseForInit n st =
     (case cur st of
        None \<Rightarrow> Throw nullValueMessage st
      | Some t \<Rightarrow>
          if t_value t \<noteq> '';'' then
            (if t_value t = ''var'' then
               (case parseVariableDeclaration n st of
                  Ok d s \<Rightarrow> Ok (Some (Inl d)) s
                | Throw m s \<Rightarrow> Throw m s
                | Timeout \<Rightarrow> Timeout)
             else
               (case parseExpressionAt n st of
                  Ok x s \<Rightarrow> Ok (Some (Inr x)) s
                | Throw m s \<Rightarrow> Throw m s
                | Timeout \<Rightarrow> Timeout))
          else Ok None st)"

definition parseForClause :: "nat \<Rightarrow> string \<Rightarrow> parser \<Rightarrow> (expr option, parser) result" where
  "parseForClause n closing st =
     (case cur st of
        None \<Rightarrow> Throw nullValueMessage st
      | Some t \<Rightarrow>
          if t_value t \<noteq> closing then
            (case parseExpressionAt n st of
               Ok x s \<Rightarrow> Ok (Some x) s
             | Throw m s \<Rightarrow> Throw m s
             | Timeout \<Rightarrow> Timeout)
          else Ok None st)"

definition parseForStatement ::
  "nat \<Rightarrow> (parser \<Rightarrow> (stmt option, parser) result) \<Rightarrow> parser \<Rightarrow> (stmt, parser) result"
where
  "parseForStatement n statement st =
     (case cur st of
        None \<Rightarrow> Throw nullStartMessage st
      | Some startToken \<Rightarrow>
          (let st1 = advance st in
           if \<not> curIs st1 ''('' then
             Throw (atPos st1 (''Expected '' @ quoted ''('' @ '' after '' @ quoted ''for'')) st1
           else
             (case parseForInit n (advance st1) of
                Ok ini st2 \<Rightarrow>
                  if \<not> curIs st2 '';'' then
                    Throw (atPos st2 (''Expected '' @ quoted '';'' @ '' after for init'')) st2
                  else
                    (case parseForClause n '';'' (advance st2) of
                       Ok test st3 \<Rightarrow>
                         if \<not> curIs st3 '';'' then
                           Throw (atPos st3 (''Expected '' @ quoted '';'' @ '' after for test'')) st3
                         else
                           (case parseForClause n '')'' (advance st3) of
                              Ok update st4 \<Rightarrow>
                                if \<not> curIs st4 '')'' then
                                  Throw (atPos st4
                                     (''Expected '' @ quoted '')'' @ '' after for update'')) st4
                                else
                                  (case parseBlock n statement (advance st4) of
                                     Ok body st5 \<Rightarrow>
                                       Ok (ForStatement ini test update body (t_start startToken)
                                             (endOrAt st5 startToken)) st5
                                   | Throw m s \<Rightarrow> Throw m s
                                   | Timeout \<Rightarrow> Timeout)
                            | Throw m s \<Rightarrow> Throw m s
                            | Timeout \<Rightarrow> Timeout)
                     | Throw m s \<Rightarrow> Throw m s
                     | Timeout \<Rightarrow> Timeout)
              | Throw m s \<Rightarrow> Throw m s
              | Timeout \<Rightarrow> Timeout)))"

text \<open>
  The parameter list of \<^verbatim>\<open>parseFunctionDeclaration\<close>: an identifier if there is one, then
  the \<^verbatim>\<open>while\<close> over commas, each followed by an identifier if there is one.
\<close>

definition pushParameter :: "string list \<times> parser \<Rightarrow> string list \<times> parser" where
  "pushParameter a =
     (case cur (snd a) of
        None \<Rightarrow> a
      | Some t \<Rightarrow> if t_type t = IDENTIFIER then (fst a @ [t_value t], advance (snd a)) else a)"

function parameterLoop :: "string list \<times> parser \<Rightarrow> string list \<times> parser" where
  "parameterLoop a =
     (if curIs (snd a) '','' then parameterLoop (pushParameter (fst a, advance (snd a))) else a)"
  by pat_completeness auto
termination
  by (relation "measure (\<lambda>a. length (p_tokens (snd a)) - p_position (snd a))")
     (auto simp: pushParameter_def curIs_def cur_def advance_def currentIs_def currentToken_def
        nextToken_def split: if_splits option.splits)

declare parameterLoop.simps [simp del]

definition parseFunctionDeclaration ::
  "nat \<Rightarrow> (parser \<Rightarrow> (stmt option, parser) result) \<Rightarrow> parser \<Rightarrow> (stmt, parser) result"
where
  "parseFunctionDeclaration n statement st =
     (case cur st of
        None \<Rightarrow> Throw nullStartMessage st
      | Some startToken \<Rightarrow>
          (let st1 = advance st in
           case cur st1 of
             None \<Rightarrow> Throw nullStartMessage st1
           | Some nameToken \<Rightarrow>
               if t_type nameToken \<noteq> IDENTIFIER then
                 Throw (atPos st1 (''Expected function name after '' @ quoted ''fun'')) st1
               else
                 (let st2 = advance st1 in
                  if \<not> curIs st2 ''('' then
                    Throw (atPos st2 (''Expected '' @ quoted ''('' @ '' after function name'')) st2
                  else
                    (let st3 = advance st2;
                         a = (if cur st3 \<noteq> None \<and> \<not> curIs st3 '')''
                              then parameterLoop (pushParameter ([], st3)) else ([], st3));
                         params = fst a; st4 = snd a in
                     if \<not> curIs st4 '')'' then
                       Throw (atPos st4
                          (''Expected '' @ quoted '')'' @ '' after function parameters'')) st4
                     else
                       (case parseBlock n statement (advance st4) of
                          Ok body st5 \<Rightarrow>
                            Ok (FunctionDeclaration
                                  (Identifier (t_value nameToken) (t_start nameToken)
                                     (t_end nameToken))
                                  params body (t_start startToken) (endOrAt st5 startToken)) st5
                        | Throw m s \<Rightarrow> Throw m s
                        | Timeout \<Rightarrow> Timeout)))))"

definition parseClassDeclaration ::
  "nat \<Rightarrow> (parser \<Rightarrow> (stmt option, parser) result) \<Rightarrow> parser \<Rightarrow> (stmt, parser) result"
where
  "parseClassDeclaration n statement st =
     (case cur st of
        None \<Rightarrow> Throw nullStartMessage st
      | Some startToken \<Rightarrow>
          (let st1 = advance st in
           case cur st1 of
             None \<Rightarrow> Throw nullStartMessage st1
           | Some nameToken \<Rightarrow>
               if t_type nameToken \<noteq> IDENTIFIER then
                 Throw (atPos st1 (''Expected class name after '' @ quoted ''class'')) st1
               else
                 (let st2 = advance st1 in
                  if \<not> curIs st2 ''{'' then
                    Throw (atPos st2 (''Expected '' @ quoted ''{'' @ '' to start class body'')) st2
                  else
                    (case parseBlock n statement st2 of
                       Ok body st3 \<Rightarrow>
                         Ok (ClassDeclaration
                               (Identifier (t_value nameToken) (t_start nameToken)
                                  (t_end nameToken))
                               body (t_start startToken) (endOrAt st3 startToken)) st3
                     | Throw m s \<Rightarrow> Throw m s
                     | Timeout \<Rightarrow> Timeout))))"

text \<open>A statement method returns its node; \<^verbatim>\<open>parseStatement\<close> returns a node or \<^verbatim>\<open>null\<close>.\<close>

definition returned :: "(stmt, parser) result \<Rightarrow> (stmt option, parser) result" where
  "returned r = (case r of Ok x s \<Rightarrow> Ok (Some x) s | Throw m s \<Rightarrow> Throw m s | Timeout \<Rightarrow> Timeout)"

text \<open>The body of the \<^verbatim>\<open>try\<close> of \<^verbatim>\<open>parseStatement\<close>, on the token it starts at.\<close>

definition tryStatement ::
  "nat \<Rightarrow> (parser \<Rightarrow> (stmt option, parser) result) \<Rightarrow> token \<Rightarrow> parser
     \<Rightarrow> (stmt option, parser) result"
where
  "tryStatement n statement tok st =
     (if t_value tok = ''var'' then returned (parseVariableDeclaration n st)
      else if t_value tok = ''if'' then returned (parseIfStatement n statement st)
      else if t_value tok = ''while'' then returned (parseWhileStatement n statement st)
      else if t_value tok = ''for'' then returned (parseForStatement n statement st)
      else if t_value tok = ''fun'' then returned (parseFunctionDeclaration n statement st)
      else if t_value tok = ''class'' then returned (parseClassDeclaration n statement st)
      else if t_value tok = ''return'' then returned (parseReturnStatement n st)
      else if t_type tok = IDENTIFIER then returned (parseExpressionStatement n st)
      else Ok None (skipToNextStatement st))"

text \<open>\<^verbatim>\<open>parseStatement\<close>: the \<^verbatim>\<open>try\<close>, and the \<^verbatim>\<open>catch\<close> that records and recovers.\<close>

primrec parseStatement :: "nat \<Rightarrow> parser \<Rightarrow> (stmt option, parser) result" where
  "parseStatement 0 st = Timeout"
| "parseStatement (Suc n) st =
     (case cur st of
        None \<Rightarrow> Ok None st
      | Some tok \<Rightarrow>
          (case tryStatement n (parseStatement n) tok st of
             Ok r st1 \<Rightarrow> Ok r st1
           | Throw message st1 \<Rightarrow>
               Ok None (skipToNextStatement (addError message (t_start tok) (t_end tok) st1))
           | Timeout \<Rightarrow> Timeout))"

text \<open>The \<^verbatim>\<open>while (this.position < this.tokens.length)\<close> of \<^verbatim>\<open>parse\<close>.\<close>

primrec parseLoop :: "nat \<Rightarrow> stmt list \<Rightarrow> parser \<Rightarrow> (stmt list, parser) result" where
  "parseLoop 0 statements st = Timeout"
| "parseLoop (Suc n) statements st =
     (if p_position st < length (p_tokens st) then
        (case parseStatement n st of
           Ok r st1 \<Rightarrow> parseLoop n (pushStatement statements r) st1
         | Throw m s \<Rightarrow> Throw m s
         | Timeout \<Rightarrow> Timeout)
      else Ok statements st)"

text \<open>
  The \<^verbatim>\<open>Program\<close> that \<^verbatim>\<open>parse\<close> returns: \<^verbatim>\<open>{ type, body }\<close> for a blank input,
  \<^verbatim>\<open>{ type, body, errors }\<close> otherwise.
\<close>

record program =
  prog_body :: "stmt list"
  prog_errors :: "syntaxError list option"

text \<open>
  \<^verbatim>\<open>parse(input)\<close> on the parser object \<open>this\<close>. \<^verbatim>\<open>tokenize\<close> stores the input, then
  \<^verbatim>\<open>parse\<close> sets the tokens and the position; \<^verbatim>\<open>this.errors\<close> is what the object holds.
\<close>

definition parse :: "nat \<Rightarrow> parser \<Rightarrow> string \<Rightarrow> (program, parser) result" where
  "parse n this text =
     (if text = [] \<or> list_all isSpace text then
        Ok \<lparr>prog_body = [], prog_errors = None\<rparr> this
      else
        (case tokenize text of
           Inl message \<Rightarrow> Throw message (this\<lparr>p_input := text\<rparr>)
         | Inr toks \<Rightarrow>
             (case parseLoop n [] (this\<lparr>p_input := text, p_tokens := toks, p_position := 0\<rparr>) of
                Ok statements st \<Rightarrow>
                  Ok \<lparr>prog_body = statements, prog_errors = Some (p_errors st)\<rparr> st
              | Throw m s \<Rightarrow> Throw m s
              | Timeout \<Rightarrow> Timeout)))"

section \<open>Server (server/server.js)\<close>

text \<open>The diagnostic that \<^verbatim>\<open>analyzeTypeSafety\<close> makes of a syntax error.\<close>

definition syntaxDiagnostic :: "string \<Rightarrow> syntaxError \<Rightarrow> diagnostic" where
  "syntaxDiagnostic text err =
     \<lparr>severity = 1,
      range_start = getPositionFromIndex text (se_start err),
      range_end = getPositionFromIndex text (se_end err),
      d_message = se_message err\<rparr>"

text \<open>
  \<^verbatim>\<open>analyzeTypeSafety(text, document)\<close>, where the document's text is \<open>text\<close>: a new
  parser, the syntax errors as diagnostics, then the type checker on the same list; an
  exception of \<^verbatim>\<open>parse\<close> is caught and logged, and the list is returned as it is then.
  \<open>None\<close> when the parser's fuel ran out.
\<close>

definition analyzeTypeSafety :: "nat \<Rightarrow> string \<Rightarrow> diagnostic list option" where
  "analyzeTypeSafety n text =
     (case parse n newParser text of
        Ok prog st \<Rightarrow>
          Some (tc_errors
            (check (prog_body prog) text
               (case prog_errors prog of
                  None \<Rightarrow> []
                | Some errs \<Rightarrow> map (syntaxDiagnostic text) errs)))
      | Throw message st \<Rightarrow> Some []
      | Timeout \<Rightarrow> None)"

section \<open>Predicates used in the statements\<close>

text \<open>The type tags of the symbol table.\<close>

definition typeTags :: "string list" where
  "typeTags = [''int'', ''float'', ''string'', ''bool'', ''array'', ''object'', ''any'']"

text \<open>Every type held by a symbol table is one of the tags.\<close>

definition tableOk :: "(string \<rightharpoonup> string) \<Rightarrow> bool" where
  "tableOk tab \<longleftrightarrow> (\<forall>t \<in> ran tab. t \<in> set typeTags)"

text \<open>
  Every declared type of a statement is a type keyword (the parser stores a declared type
  only under \<^verbatim>\<open>isTypeKeyword\<close>).
\<close>

fun declaredTypesOk :: "stmt \<Rightarrow> bool"
  and declaredTypesOkList :: "stmt option list \<Rightarrow> bool" where
  "declaredTypesOk (VariableDeclaration dt name ini s e) =
     (case dt of None \<Rightarrow> True | Some t \<Rightarrow> t \<in> set typeTags)"
| "declaredTypesOk (IfStatement test cons None s e) = declaredTypesOk cons"
| "declaredTypesOk (IfStatement test cons (Some a) s e) =
     (declaredTypesOk cons \<and> declaredTypesOk a)"
| "declaredTypesOk (WhileStatement test body s e) = declaredTypesOk body"
| "declaredTypesOk (ForStatement (Some (Inl d)) test update body s e) =
     (declaredTypesOk d \<and> declaredTypesOk body)"
| "declaredTypesOk (ForStatement ini test update body s e) = declaredTypesOk body"
| "declaredTypesOk (BlockStatement body) = declaredTypesOkList body"
| "declaredTypesOk (FunctionDeclaration ident params body s e) = declaredTypesOk body"
| "declaredTypesOk (ClassDeclaration ident body s e) = declaredTypesOk body"
| "declaredTypesOk (ReturnStatement arg s e) = True"
| "declaredTypesOk (ExpressionStatement x s e) = True"
| "declaredTypesOk (AssignmentExpression oper l r s e) = True"
| "declaredTypesOkList [] = True"
| "declaredTypesOkList (None # xs) = declaredTypesOkList xs"
| "declaredTypesOkList (Some x # xs) = (declaredTypesOk x \<and> declaredTypesOkList xs)"

text \<open>
  The statements \<^verbatim>\<open>var int x = 1; var int x = "h"; x = "a";\<close> as the parser builds
  them: a declaration, a mismatching redeclaration of the same name, a reassignment.
\<close>

definition redeclared :: "stmt list" where
  "redeclared =
     [VariableDeclaration (Some ''int'') ''x'' (Some (Literal (NumberValue True) ''1'' 12 13)) 0 15,
      VariableDeclaration (Some ''int'') ''x''
        (Some (Literal (StringValue [CHR 0x22, CHR ''h'', CHR 0x22])
                 [CHR 0x22, CHR ''h'', CHR 0x22] 27 30)) 15 32,
      AssignmentExpression ''='' (Identifier ''x'' 32 33)
        (Literal (StringValue [CHR 0x22, CHR ''a'', CHR 0x22])
           [CHR 0x22, CHR ''a'', CHR 0x22] 36 39) 32 40]"

text \<open>
  The recovery position in the words of the specification: from a position, skip the
  tokens that are neither \<open>;\<close>, \<open>{\<close>, \<open>}\<close> nor the start of a statement; stop after
  the \<open>;\<close> if that is what stopped the skip, and at the token (or at the end) otherwise.
\<close>

definition isRecoveryPoint :: "token \<Rightarrow> bool" where
  "isRecoveryPoint tok \<longleftrightarrow>
     t_value tok = '';'' \<or> t_value tok = ''}'' \<or> t_value tok = ''{'' \<or> isStatementStart tok"

definition recoveryPosition :: "token list \<Rightarrow> nat \<Rightarrow> nat" where
  "recoveryPosition toks pos =
     (let rest = drop pos toks;
          skipped = takeWhile (\<lambda>t. \<not> isRecoveryPoint t) rest in
      case dropWhile (\<lambda>t. \<not> isRecoveryPoint t) rest of
        [] \<Rightarrow> pos + length skipped
      | t # ts \<Rightarrow> if t_value t = '';'' then pos + length skipped + 1 else pos + length skipped)"

text \<open>The parser after \<^verbatim>\<open>tokenize\<close> of a text, before the first statement.\<close>

definition parserOn :: "string \<Rightarrow> parser" where
  "parserOn text =
     \<lparr>p_input = text,
      p_tokens = (case tokenize text of Inl m \<Rightarrow> [] | Inr toks \<Rightarrow> toks),
      p_position = 0, p_errors = []\<rparr>"

text \<open>The scanner after \<open>k\<close> turns of the loop of \<^verbatim>\<open>tokenize\<close>, if it gets that far.\<close>

primrec lexerAfter :: "string \<Rightarrow> nat \<Rightarrow> (nat \<times> token list) option" where
  "lexerAfter input 0 = Some (0, [])"
| "lexerAfter input (Suc k) =
     (case lexerAfter input k of
        None \<Rightarrow> None
      | Some a \<Rightarrow>
          if fst a < length input then
            (case tokenizeStep input (fst a) (snd a) of Inl m \<Rightarrow> None | Inr b \<Rightarrow> Some b)
          else None)"

text \<open>
  A string literal that never closes: the scanner comes to the offset \<open>start\<close> at the
  start of a token, a quote stands there, and the scan for the matching quote (with
  \<open>\\<close> skipping the character after it) runs to the end of the input.
\<close>

definition unterminatedStringAt :: "string \<Rightarrow> nat \<Rightarrow> bool" where
  "unterminatedStringAt input start \<longleftrightarrow>
     (\<exists>k toks. lexerAfter input k = Some (start, toks)) \<and> start < length input \<and>
     (input ! start = CHR 0x22 \<or> input ! start = CHR 0x27) \<and>
     length input \<le> scanString input (input ! start) (start + 1)"

definition unterminatedMessage :: "nat \<Rightarrow> string" where
  "unterminatedMessage start = ''Unterminated string at position '' @ showNat start"

text \<open>
  The order of a token sequence: every token ends no earlier than it starts, and no later
  than any later token starts.
\<close>

definition tokensOrdered :: "token list \<Rightarrow> bool" where
  "tokensOrdered toks \<longleftrightarrow>
     (\<forall>i < length toks. t_start (toks ! i) \<le> t_end (toks ! i)) \<and>
     (\<forall>i j. i < j \<longrightarrow> j < length toks \<longrightarrow> t_end (toks ! i) \<le> t_start (toks ! j))"

text \<open>
  The offsets of a node are in order, \<^verbatim>\<open>start\<close> \<open>\<le>\<close> \<^verbatim>\<open>end\<close>, and so are those of
  every node below it. A \<^verbatim>\<open>BlockStatement\<close> has no offsets of its own.
\<close>

fun exprOk :: "expr \<Rightarrow> bool" and exprsOk :: "expr list \<Rightarrow> bool" where
  "exprOk (Literal v raw s e) = (s \<le> e)"
| "exprOk (Identifier name s e) = (s \<le> e)"
| "exprOk (BinaryExpression oper l r s e) = (s \<le> e \<and> exprOk l \<and> exprOk r)"
| "exprOk (LogicalExpression oper l r s e) = (s \<le> e \<and> exprOk l \<and> exprOk r)"
| "exprOk (UnaryExpression oper a s e) = (s \<le> e \<and> exprOk a)"
| "exprOk (CallExpression callee args s e) = (s \<le> e \<and> exprOk callee \<and> exprsOk args)"
| "exprOk (MemberExpression obj prop s e) = (s \<le> e \<and> exprOk obj \<and> exprOk prop)"
| "exprOk (ArrayExpression elements s e) = (s \<le> e \<and> exprsOk elements)"
| "exprOk (ObjectExpression properties s e) = (s \<le> e \<and> exprsOk properties)"
| "exprOk (Property k v s e) = (s \<le> e \<and> exprOk v)"
| "exprsOk [] = True"
| "exprsOk (x # xs) = (exprOk x \<and> exprsOk xs)"

fun optExprOk :: "expr option \<Rightarrow> bool" where
  "optExprOk None = True"
| "optExprOk (Some x) = exprOk x"

fun stmtOk :: "stmt \<Rightarrow> bool" and stmtsOk :: "stmt option list \<Rightarrow> bool" where
  "stmtOk (VariableDeclaration dt name ini s e) = (s \<le> e \<and> optExprOk ini)"
| "stmtOk (IfStatement test cons None s e) = (s \<le> e \<and> exprOk test \<and> stmtOk cons)"
| "stmtOk (IfStatement test cons (Some a) s e) =
     (s \<le> e \<and> exprOk test \<and> stmtOk cons \<and> stmtOk a)"
| "stmtOk (WhileStatement test body s e) = (s \<le> e \<and> exprOk test \<and> stmtOk body)"
| "stmtOk (ForStatement None test update body s e) =
     (s \<le> e \<and> optExprOk test \<and> optExprOk update \<and> stmtOk body)"
| "stmtOk (ForStatement (Some (Inl d)) test update body s e) =
     (s \<le> e \<and> stmtOk d \<and> optExprOk test \<and> optExprOk update \<and> stmtOk body)"
| "stmtOk (ForStatement (Some (Inr x)) test update body s e) =
     (s \<le> e \<and> exprOk x \<and> optExprOk test \<and> optExprOk update \<and> stmtOk body)"
| "stmtOk (BlockStatement body) = stmtsOk body"
| "stmtOk (FunctionDeclaration ident params body s e) = (s \<le> e \<and> exprOk ident \<and> stmtOk body)"
| "stmtOk (ClassDeclaration ident body s e) = (s \<le> e \<and> exprOk ident \<and> stmtOk body)"
| "stmtOk (ReturnStatement arg s e) = (s \<le> e \<and> optExprOk arg)"
| "stmtOk (ExpressionStatement x s e) = (s \<le> e \<and> exprOk x)"
| "stmtOk (AssignmentExpression oper l r s e) = (s \<le> e \<and> exprOk l \<and> exprOk r)"
| "stmtsOk [] = True"
| "stmtsOk (None # xs) = stmtsOk xs"
| "stmtsOk (Some x # xs) = (stmtOk x \<and> stmtsOk xs)"

text \<open>
  An expression parsed from the position \<open>pos\<close> to the position \<open>pos'\<close>: at least one
  token was consumed, the node's offsets are in order, and they lie within the tokens
  consumed.
\<close>

definition spanOk :: "token list \<Rightarrow> nat \<Rightarrow> expr \<Rightarrow> nat \<Rightarrow> bool" where
  "spanOk toks pos x pos' \<longleftrightarrow>
     pos < pos' \<and> pos' \<le> length toks \<and> exprOk x \<and>
     t_start (toks ! pos) \<le> expr_start x \<and> expr_end x \<le> t_end (toks ! (pos' - 1))"

text \<open>What a parser of expressions returns is an expression over the tokens it consumed.\<close>

definition exprSpec :: "token list \<Rightarrow> (nat \<Rightarrow> (expr, nat) result) \<Rightarrow> bool" where
  "exprSpec toks f \<longleftrightarrow> (\<forall>pos x pos'. f pos = Ok x pos' \<longrightarrow> spanOk toks pos x pos')"

text \<open>The position a result leaves is not before the position it was computed from.\<close>

definition resultFrom :: "nat \<Rightarrow> ('a, nat) result \<Rightarrow> bool" where
  "resultFrom pos r = (case r of Ok x q \<Rightarrow> pos \<le> q | Throw m q \<Rightarrow> pos \<le> q | Timeout \<Rightarrow> True)"

text \<open>
  A later state of the same parser run: the tokens and the input are the same, and the
  position is not before.
\<close>

definition stepOk :: "parser \<Rightarrow> parser \<Rightarrow> bool" where
  "stepOk st st' \<longleftrightarrow>
     p_tokens st' = p_tokens st \<and> p_input st' = p_input st \<and> p_position st \<le> p_position st'"

definition stateFrom :: "parser \<Rightarrow> ('a, parser) result \<Rightarrow> bool" where
  "stateFrom st r =
     (case r of Ok x s \<Rightarrow> stepOk st s | Throw m s \<Rightarrow> stepOk st s | Timeout \<Rightarrow> True)"

definition redeclaredText :: string where
  "redeclaredText =
     ''var int x = 1; var int x = '' @ [CHR 0x22, CHR ''h'', CHR 0x22] @ ''; x = ''
       @ [CHR 0x22, CHR ''a'', CHR 0x22] @ '';''"

section \<open>Properties of the type checker\<close>

text \<open>Checking an expression node only walks it: no expression kind touches the state.\<close>

lemma checkNodeExpr_id:
  "checkNodeExpr doc x c = c" "checkNodesExpr doc xs c = c"
  by (induction doc x c and doc xs c rule: checkNodeExpr_checkNodesExpr.induct) simp_all

lemma checkNodeOptExpr_id: "checkNodeOptExpr doc x c = c"
  by (cases x) (simp_all add: checkNodeExpr_id)

lemma orAny_int: "orAny t = ''int'' \<longleftrightarrow> t = ''int''"
  by (auto simp: orAny_def)

text \<open>
  C6. A binary or logical expression with a comparison or logical operator infers as
  \<open>bool\<close>; with an arithmetic operator it infers as \<open>int\<close> exactly when both operands
  infer as \<open>int\<close> and the operator is not \<open>/\<close>, and as \<open>float\<close> otherwise.
\<close>

theorem inferType_operators:
  "(oper \<in> set [''=='', ''!='', ''<'', ''<='', ''>'', ''>='', ''and'', ''or''] \<longrightarrow>
      inferType tab (BinaryExpression oper l r s e) = ''bool'' \<and>
      inferType tab (LogicalExpression oper l r s e) = ''bool'') \<and>
   (oper \<in> set [''+'', ''-'', ''*'', ''/'', ''%''] \<longrightarrow>
      inferType tab (BinaryExpression oper l r s e) =
        (if inferType tab l = ''int'' \<and> inferType tab r = ''int'' \<and> oper \<noteq> ''/''
         then ''int'' else ''float'') \<and>
      inferType tab (LogicalExpression oper l r s e) =
        (if inferType tab l = ''int'' \<and> inferType tab r = ''int'' \<and> oper \<noteq> ''/''
         then ''int'' else ''float''))"
  by (auto simp: orAny_int Let_def)

text \<open>The examples \<^verbatim>\<open>1 + 1\<close>, \<^verbatim>\<open>1 / 1\<close> and \<^verbatim>\<open>1 == 1\<close>.\<close>

theorem inferType_operators_witness:
  "''+'' \<in> set [''+'', ''-'', ''*'', ''/'', ''%''] \<and>
   inferType Map.empty (BinaryExpression ''+'' (Literal (NumberValue True) ''1'' 0 1)
      (Literal (NumberValue True) ''1'' 4 5) 0 5) = ''int'' \<and>
   ''/'' \<in> set [''+'', ''-'', ''*'', ''/'', ''%''] \<and>
   inferType Map.empty (BinaryExpression ''/'' (Literal (NumberValue True) ''1'' 0 1)
      (Literal (NumberValue True) ''1'' 4 5) 0 5) = ''float'' \<and>
   ''=='' \<in> set [''=='', ''!='', ''<'', ''<='', ''>'', ''>='', ''and'', ''or''] \<and>
   inferType Map.empty (BinaryExpression ''=='' (Literal (NumberValue True) ''1'' 0 1)
      (Literal (NumberValue True) ''1'' 5 6) 0 6) = ''bool''"
  using
    inferType_operators [of "''+''" Map.empty "Literal (NumberValue True) ''1'' 0 1"
      "Literal (NumberValue True) ''1'' 4 5" 0 5]
    inferType_operators [of "''/''" Map.empty "Literal (NumberValue True) ''1'' 0 1"
      "Literal (NumberValue True) ''1'' 4 5" 0 5]
    inferType_operators [of "''==''" Map.empty "Literal (NumberValue True) ''1'' 0 1"
      "Literal (NumberValue True) ''1'' 5 6" 0 6]
  by simp

lemma inferType_in_tags:
  assumes "tableOk tab"
  shows "inferType tab x \<in> set typeTags"
proof (induction x)
  case (Identifier name s e)
  show ?case
  proof (cases "tab name")
    case None
    then show ?thesis by (simp add: lookupType_def typeTags_def)
  next
    case (Some t)
    then have "t \<in> ran tab" by (auto simp: ran_def)
    with assms have "t \<in> set typeTags" by (simp add: tableOk_def)
    with Some show ?thesis by (auto simp: lookupType_def typeTags_def)
  qed
next
  case (UnaryExpression oper a s e)
  then show ?case by (auto simp: orAny_def typeTags_def)
qed (auto simp: typeTags_def Let_def split: literalValue.splits)

text \<open>
  C9. Over a symbol table that holds type tags only (the initial table is empty, and
  \<open>checkNode_tableOk\<close> below shows that checking keeps it so), \<^verbatim>\<open>inferType\<close> returns
  one of the seven tags for every node and never \<^verbatim>\<open>'nil'\<close>; so on an inferred type
  \<^verbatim>\<open>isCompatibleType\<close> is decided by its first three tests, and the \<^verbatim>\<open>'nil'\<close> test is
  never the one that answers.
\<close>

theorem inferType_never_nil:
  assumes "tableOk tab"
  shows "inferType tab x \<in> set typeTags \<and> inferType tab x \<noteq> ''nil'' \<and>
         (isCompatibleType expected (inferType tab x) \<longleftrightarrow>
            expected = inferType tab x \<or> expected = ''any'' \<or> inferType tab x = ''any'' \<or>
            (expected = ''float'' \<and> inferType tab x = ''int''))"
proof -
  have a: "inferType tab x \<in> set typeTags" using assms by (rule inferType_in_tags)
  then have b: "inferType tab x \<noteq> ''nil''" by (auto simp: typeTags_def)
  show ?thesis using a b by (auto simp: isCompatibleType_def)
qed

text \<open>The literal \<^verbatim>\<open>nil\<close> and a tracked identifier, over the table \<open>x : int\<close>.\<close>

theorem inferType_never_nil_witness:
  "tableOk [''x'' \<mapsto> ''int''] \<and>
   inferType [''x'' \<mapsto> ''int''] (Literal NullValue ''nil'' 0 3) = ''any'' \<and>
   isCompatibleType ''string'' (inferType [''x'' \<mapsto> ''int''] (Literal NullValue ''nil'' 0 3)) \<and>
   inferType [''x'' \<mapsto> ''int''] (Identifier ''x'' 0 1) = ''int'' \<and>
   \<not> isCompatibleType ''string'' (inferType [''x'' \<mapsto> ''int''] (Identifier ''x'' 0 1))"
proof -
  have h: "tableOk [''x'' \<mapsto> ''int'']" by (simp add: tableOk_def typeTags_def)
  show ?thesis
    using h inferType_never_nil [OF h, of "Literal NullValue ''nil'' 0 3" "''string''"]
      inferType_never_nil [OF h, of "Identifier ''x'' 0 1" "''string''"]
    by (simp add: lookupType_def)
qed

text \<open>
  C7. \<^verbatim>\<open>checkAssignmentExpression\<close> leaves the symbol table as it found it, whatever
  the node and whether or not it pushed a diagnostic.
\<close>

theorem reassignment_keeps_table:
  "symbolTable (checkAssignmentExpression doc node c) = symbolTable c"
  by (cases "(doc, node, c)" rule: checkAssignmentExpression.cases)
     (auto simp: checkNodeExpr_id Let_def split: option.splits)

lemma tableOk_upd: "tableOk tab \<Longrightarrow> t \<in> set typeTags \<Longrightarrow> tableOk (tab(n \<mapsto> t))"
  by (auto simp: tableOk_def ran_def)

lemma checkVariableDeclaration_tableOk:
  "declaredTypesOk node \<Longrightarrow> tableOk (symbolTable c) \<Longrightarrow>
   tableOk (symbolTable (checkVariableDeclaration doc node c))"
  by (cases "(doc, node, c)" rule: checkVariableDeclaration.cases)
     (auto simp: checkNodeOptExpr_id Let_def typeTags_def
           intro!: tableOk_upd split: option.splits)

lemma checkAssignmentExpression_table:
  "symbolTable (checkAssignmentExpression doc node c) = symbolTable c"
  by (cases "(doc, node, c)" rule: checkAssignmentExpression.cases)
     (auto simp: checkNodeExpr_id Let_def split: option.splits)

text \<open>Checking statements whose declared types are type keywords keeps the table in tags.\<close>

lemma checkNode_tableOk:
  "declaredTypesOk node \<Longrightarrow> tableOk (symbolTable c) \<Longrightarrow>
     tableOk (symbolTable (checkNode doc node c))"
  "declaredTypesOkList nodes \<Longrightarrow> tableOk (symbolTable c) \<Longrightarrow>
     tableOk (symbolTable (checkNodes doc nodes c))"
proof (induction doc node c and doc nodes c rule: checkNode_checkNodes.induct)
  case (1 doc dt name ini s e c)
  from "1.prems" have
    "tableOk (symbolTable (checkVariableDeclaration doc (VariableDeclaration dt name ini s e) c))"
    by (rule checkVariableDeclaration_tableOk)
  then show ?case by (simp only: checkNode.simps)
next
  case (2 doc oper l r s e c)
  then show ?case by (simp add: checkAssignmentExpression_table)
next
  case (3 doc test cons alt s e c)
  then show ?case by (cases alt) (simp_all add: checkNodeExpr_id Let_def)
qed (simp_all add: checkNodeExpr_id checkNodeOptExpr_id)

text \<open>
  C5, as amended. For a typed declaration with an initialiser: if the inferred type of the
  initialiser is compatible with the declared type, the name is registered with the
  declared type and no diagnostic is pushed; if not, exactly one Type-mismatch diagnostic
  is pushed, at the initialiser's range, and the symbol table is left as it was. So a
  name that was not tracked before a mismatching declaration is not tracked after it, and
  a reassignment of it right after pushes no diagnostic.
\<close>

theorem typed_declaration:
  assumes "declaredType \<noteq> []"
  shows "checkVariableDeclaration doc (VariableDeclaration (Some declaredType) name (Some x) s e) c =
     (if isCompatibleType declaredType (inferType (symbolTable c) x)
      then c\<lparr>symbolTable := (symbolTable c)(name \<mapsto> declaredType)\<rparr>
      else c\<lparr>tc_errors := tc_errors c @
             [\<lparr>severity = 1,
               range_start = getPositionFromIndex doc (expr_start x),
               range_end = getPositionFromIndex doc (expr_end x),
               d_message = ''Type mismatch: expected '' @ declaredType @ '' but got ''
                 @ inferType (symbolTable c) x @ '' for variable '' @ [CHR 0x27] @ name
                 @ [CHR 0x27]\<rparr>]\<rparr>)
   \<and> (symbolTable c name = None \<longrightarrow>
        \<not> isCompatibleType declaredType (inferType (symbolTable c) x) \<longrightarrow>
        tc_errors (checkAssignmentExpression doc
            (AssignmentExpression oper (Identifier name ls le) v s' e')
            (checkVariableDeclaration doc
               (VariableDeclaration (Some declaredType) name (Some x) s e) c))
        = tc_errors (checkVariableDeclaration doc
               (VariableDeclaration (Some declaredType) name (Some x) s e) c))"
  using assms by (simp add: Let_def declarationMismatch_def checkNodeExpr_id)

text \<open>
  The declaration \<^verbatim>\<open>var int x = "h";\<close> on a fresh checker, followed by \<^verbatim>\<open>x = 5;\<close>.
\<close>

theorem typed_declaration_witness:
  "''int'' \<noteq> [] \<and>
   symbolTable \<lparr>symbolTable = Map.empty, tc_errors = []\<rparr> ''x'' = None \<and>
   \<not> isCompatibleType ''int'' (inferType Map.empty
        (Literal (StringValue [CHR 0x22, CHR ''h'', CHR 0x22]) [CHR 0x22, CHR ''h'', CHR 0x22] 12 15)) \<and>
   checkVariableDeclaration (''var int x = '' @ [CHR 0x22, CHR ''h'', CHR 0x22] @ '';'')
     (VariableDeclaration (Some ''int'') ''x''
        (Some (Literal (StringValue [CHR 0x22, CHR ''h'', CHR 0x22])
                 [CHR 0x22, CHR ''h'', CHR 0x22] 12 15)) 0 16)
     \<lparr>symbolTable = Map.empty, tc_errors = []\<rparr>
   = \<lparr>symbolTable = Map.empty,
      tc_errors = [\<lparr>severity = 1, range_start = \<lparr>line = 0, character = 12\<rparr>,
                    range_end = \<lparr>line = 0, character = 15\<rparr>,
                    d_message = ''Type mismatch: expected int but got string for variable ''
                      @ [CHR 0x27] @ ''x'' @ [CHR 0x27]\<rparr>]\<rparr> \<and>
   tc_errors (checkAssignmentExpression (''var int x = '' @ [CHR 0x22, CHR ''h'', CHR 0x22] @ '';'')
       (AssignmentExpression ''='' (Identifier ''x'' 17 18) (Literal (NumberValue True) ''5'' 21 22) 17 23)
       (checkVariableDeclaration (''var int x = '' @ [CHR 0x22, CHR ''h'', CHR 0x22] @ '';'')
          (VariableDeclaration (Some ''int'') ''x''
             (Some (Literal (StringValue [CHR 0x22, CHR ''h'', CHR 0x22])
                      [CHR 0x22, CHR ''h'', CHR 0x22] 12 15)) 0 16)
          \<lparr>symbolTable = Map.empty, tc_errors = []\<rparr>))
   = tc_errors (checkVariableDeclaration (''var int x = '' @ [CHR 0x22, CHR ''h'', CHR 0x22] @ '';'')
          (VariableDeclaration (Some ''int'') ''x''
             (Some (Literal (StringValue [CHR 0x22, CHR ''h'', CHR 0x22])
                      [CHR 0x22, CHR ''h'', CHR 0x22] 12 15)) 0 16)
          \<lparr>symbolTable = Map.empty, tc_errors = []\<rparr>)"
proof -
  have h: "''int'' \<noteq> []" by simp
  show ?thesis
    using typed_declaration [OF h, of
        "''var int x = '' @ [CHR 0x22, CHR ''h'', CHR 0x22] @ '';''" "''x''"
        "Literal (StringValue [CHR 0x22, CHR ''h'', CHR 0x22]) [CHR 0x22, CHR ''h'', CHR 0x22] 12 15"
        0 16 "\<lparr>symbolTable = Map.empty, tc_errors = []\<rparr>"
        "''=''" 17 18 "Literal (NumberValue True) ''5'' 21 22" 17 23]
    by (simp add: isCompatibleType_def getPositionFromIndex_def positionStep_def)
qed

text \<open>
  C5 as stated fails when the name is already tracked: after \<^verbatim>\<open>var int x = 1;\<close> the
  mismatching \<^verbatim>\<open>var int x = "h";\<close> pushes its diagnostic and \<open>x\<close> is still registered
  (as \<open>int\<close>), so the later \<^verbatim>\<open>x = "a";\<close> pushes a second diagnostic.
\<close>

theorem failed_redeclaration_stays_registered:
  "\<not> isCompatibleType ''int''
       (inferType (symbolTable (check (take 1 redeclared) redeclaredText []))
          (Literal (StringValue [CHR 0x22, CHR ''h'', CHR 0x22]) [CHR 0x22, CHR ''h'', CHR 0x22] 27 30))
   \<and> symbolTable (check (take 2 redeclared) redeclaredText []) ''x'' = Some ''int''
   \<and> length (tc_errors (check (take 2 redeclared) redeclaredText [])) = 1
   \<and> length (tc_errors (check redeclared redeclaredText [])) = 2"
  by (simp add: redeclared_def check_def Let_def isCompatibleType_def)

section \<open>Running the parser on numerals\<close>

text \<open>
  The fuel of the recursive functions is matched as \<open>Suc n\<close>; these equations unfold a call
  whose fuel is a numeral.
\<close>

lemma expressionList_fuel: "expressionList (numeral k) expression toks acc pos = expressionList (Suc (pred_numeral k)) expression toks acc pos"
  by (simp add: numeral_eq_Suc)

lemmas expressionList_numeral = trans [OF expressionList_fuel expressionList.simps(2)]

lemma propertyList_fuel: "propertyList (numeral k) expression toks acc pos = propertyList (Suc (pred_numeral k)) expression toks acc pos"
  by (simp add: numeral_eq_Suc)

lemmas propertyList_numeral = trans [OF propertyList_fuel propertyList.simps(2)]

lemma parseUnary_fuel: "parseUnary (numeral k) expression toks pos = parseUnary (Suc (pred_numeral k)) expression toks pos"
  by (simp add: numeral_eq_Suc)

lemmas parseUnary_numeral = trans [OF parseUnary_fuel parseUnary.simps(2)]

lemma multiplicativeLoop_fuel: "multiplicativeLoop (numeral k) expression toks x pos = multiplicativeLoop (Suc (pred_numeral k)) expression toks x pos"
  by (simp add: numeral_eq_Suc)

lemmas multiplicativeLoop_numeral = trans [OF multiplicativeLoop_fuel multiplicativeLoop.simps(2)]

lemma additiveLoop_fuel: "additiveLoop (numeral k) expression toks x pos = additiveLoop (Suc (pred_numeral k)) expression toks x pos"
  by (simp add: numeral_eq_Suc)

lemmas additiveLoop_numeral = trans [OF additiveLoop_fuel additiveLoop.simps(2)]

lemma relationalLoop_fuel: "relationalLoop (numeral k) expression toks x pos = relationalLoop (Suc (pred_numeral k)) expression toks x pos"
  by (simp add: numeral_eq_Suc)

lemmas relationalLoop_numeral = trans [OF relationalLoop_fuel relationalLoop.simps(2)]

lemma equalityLoop_fuel: "equalityLoop (numeral k) expression toks x pos = equalityLoop (Suc (pred_numeral k)) expression toks x pos"
  by (simp add: numeral_eq_Suc)

lemmas equalityLoop_numeral = trans [OF equalityLoop_fuel equalityLoop.simps(2)]

lemma logicalAndLoop_fuel: "logicalAndLoop (numeral k) expression toks x pos = logicalAndLoop (Suc (pred_numeral k)) expression toks x pos"
  by (simp add: numeral_eq_Suc)

lemmas logicalAndLoop_numeral = trans [OF logicalAndLoop_fuel logicalAndLoop.simps(2)]

lemma logicalOrLoop_fuel: "logicalOrLoop (numeral k) expression toks x pos = logicalOrLoop (Suc (pred_numeral k)) expression toks x pos"
  by (simp add: numeral_eq_Suc)

lemmas logicalOrLoop_numeral = trans [OF logicalOrLoop_fuel logicalOrLoop.simps(2)]

lemma parseExpression_fuel: "parseExpression (numeral k) toks pos = parseExpression (Suc (pred_numeral k)) toks pos"
  by (simp add: numeral_eq_Suc)

lemmas parseExpression_numeral = trans [OF parseExpression_fuel parseExpression.simps(2)]

lemma blockLoop_fuel: "blockLoop (numeral k) statement body st = blockLoop (Suc (pred_numeral k)) statement body st"
  by (simp add: numeral_eq_Suc)

lemmas blockLoop_numeral = trans [OF blockLoop_fuel blockLoop.simps(2)]

lemma parseIfStatement_fuel: "parseIfStatement (numeral k) statement st = parseIfStatement (Suc (pred_numeral k)) statement st"
  by (simp add: numeral_eq_Suc)

lemmas parseIfStatement_numeral = trans [OF parseIfStatement_fuel parseIfStatement.simps(2)]

lemma parseStatement_fuel: "parseStatement (numeral k) st = parseStatement (Suc (pred_numeral k)) st"
  by (simp add: numeral_eq_Suc)

lemmas parseStatement_numeral = trans [OF parseStatement_fuel parseStatement.simps(2)]

lemma parseLoop_fuel: "parseLoop (numeral k) statements st = parseLoop (Suc (pred_numeral k)) statements st"
  by (simp add: numeral_eq_Suc)

lemmas parseLoop_numeral = trans [OF parseLoop_fuel parseLoop.simps(2)]

lemmas lexer_eval =
  tokenize_def tokenizeLoop.simps tokenizeStep_def skipLineComment.simps skipBlockComment.simps
  scanString.simps scanNumber.simps scanIdentifier.simps isSpace_def isDigit_def isNumberChar_def
  isIdentStart_def isIdentPart_def charAt_def slice_def isKeyword_def Let_def

lemmas expression_eval =
  expressionList_numeral propertyList_numeral parseUnary_numeral multiplicativeLoop_numeral additiveLoop_numeral relationalLoop_numeral equalityLoop_numeral logicalAndLoop_numeral logicalOrLoop_numeral parseExpression_numeral
  currentToken_def nextToken_def currentIs_def atPosition_def quoted_def
  parseCallExpression_def parseMemberExpression_def parseArrayExpression_def
  parseObjectProperty_def parseObjectExpression_def parsePrimary_def parseMultiplicative_def
  parseAdditive_def parseRelational_def parseEquality_def parseLogicalAnd_def parseLogicalOr_def
  numberIsInteger_def decimalValue_def Let_def

lemmas statement_eval =
  blockLoop_numeral parseIfStatement_numeral parseStatement_numeral parseLoop_numeral
  cur_def advance_def curIs_def atPos_def addError_def findEndOfLine.simps parseExpressionAt_def
  isStatementStart_def skipToNextStatement.simps isTypeKeyword_def parseVariableDeclaration_def
  parseAssignmentExpression_def parseExpressionStatement_def parseReturnStatement_def
  pushStatement_def parseBlock_def endOrAt_def parseWhileStatement_def parseForInit_def
  parseForClause_def parseForStatement_def pushParameter_def parameterLoop.simps
  parseFunctionDeclaration_def parseClassDeclaration_def returned_def tryStatement_def
  parse_def newParser_def

section \<open>Properties of the parser: recovery and termination\<close>

lemma recoveryPosition_stop:
  assumes "pos < length toks" and "isRecoveryPoint (toks ! pos)"
  shows "recoveryPosition toks pos = (if t_value (toks ! pos) = '';'' then pos + 1 else pos)"
proof -
  have "drop pos toks = toks ! pos # drop (Suc pos) toks"
    using assms(1) by (simp add: Cons_nth_drop_Suc)
  then show ?thesis using assms(2) by (simp add: recoveryPosition_def)
qed

lemma recoveryPosition_skip:
  assumes "pos < length toks" and "\<not> isRecoveryPoint (toks ! pos)"
  shows "recoveryPosition toks pos = recoveryPosition toks (pos + 1)"
proof -
  define P where "P = (\<lambda>t. \<not> isRecoveryPoint t)"
  define rest where "rest = drop (Suc pos) toks"
  have d: "drop pos toks = toks ! pos # rest"
    using assms(1) by (simp add: Cons_nth_drop_Suc rest_def)
  have p: "P (toks ! pos)" using assms(2) by (simp add: P_def)
  have l: "recoveryPosition toks pos =
      (case dropWhile P rest of
         [] \<Rightarrow> pos + Suc (length (takeWhile P rest))
       | t # ts \<Rightarrow> if t_value t = '';'' then pos + Suc (length (takeWhile P rest)) + 1
                   else pos + Suc (length (takeWhile P rest)))"
    unfolding recoveryPosition_def Let_def d P_def [symmetric] using p
    by (simp cong: list.case_cong if_cong)
  have r: "recoveryPosition toks (pos + 1) =
      (case dropWhile P rest of
         [] \<Rightarrow> Suc pos + length (takeWhile P rest)
       | t # ts \<Rightarrow> if t_value t = '';'' then Suc pos + length (takeWhile P rest) + 1
                   else Suc pos + length (takeWhile P rest))"
    unfolding recoveryPosition_def Let_def P_def [symmetric]
    by (simp add: rest_def cong: list.case_cong if_cong)
  show ?thesis unfolding l r
    by (cases "dropWhile P rest") (simp_all del: dropWhile_eq_Nil_conv)
qed

lemma recoveryPosition_end: "length toks \<le> pos \<Longrightarrow> recoveryPosition toks pos = pos"
  by (simp add: recoveryPosition_def)

text \<open>\<^verbatim>\<open>skipToNextStatement\<close> moves the position to the recovery position and nothing else.\<close>

lemma skipToNextStatement_recovery:
  "skipToNextStatement st = st\<lparr>p_position := recoveryPosition (p_tokens st) (p_position st)\<rparr>"
proof (induction st rule: skipToNextStatement.induct)
  case (1 st)
  show ?case
  proof (cases "cur st")
    case None
    then have "length (p_tokens st) \<le> p_position st"
      by (simp add: cur_def currentToken_def split: if_splits)
    then show ?thesis using None
      by (subst skipToNextStatement.simps) (simp add: recoveryPosition_end)
  next
    case (Some tok)
    then have lt: "p_position st < length (p_tokens st)"
      and tok: "tok = p_tokens st ! p_position st"
      by (auto simp: cur_def currentToken_def split: if_splits)
    show ?thesis
    proof (cases "isRecoveryPoint tok")
      case True
      then show ?thesis using Some lt tok
        by (subst skipToNextStatement.simps)
           (auto simp: recoveryPosition_stop isRecoveryPoint_def advance_def nextToken_def)
    next
      case False
      then have a: "t_value tok \<noteq> '';''" "\<not> (t_value tok = ''}'' \<or> t_value tok = ''{'')"
        "\<not> isStatementStart tok"
        by (auto simp: isRecoveryPoint_def)
      have "skipToNextStatement st = skipToNextStatement (advance st)"
        using Some a by (subst skipToNextStatement.simps) simp
      also have "\<dots> = (advance st)\<lparr>p_position :=
          recoveryPosition (p_tokens (advance st)) (p_position (advance st))\<rparr>"
        using "1.IH" [OF Some a] .
      also have "\<dots> = st\<lparr>p_position := recoveryPosition (p_tokens st) (p_position st)\<rparr>"
        using lt tok False
        by (simp add: advance_def nextToken_def recoveryPosition_skip)
      finally show ?thesis .
    qed
  qed
qed

text \<open>
  A statement that starts at a token that is neither a statement keyword nor an
  identifier: \<^verbatim>\<open>parseStatement\<close> returns \<^verbatim>\<open>null\<close> at the recovery position.
\<close>

lemma parseStatement_unrecognised:
  assumes "cur st = Some tok" and "\<not> isStatementStart tok"
  shows "parseStatement (Suc n) st =
           Ok None (st\<lparr>p_position := recoveryPosition (p_tokens st) (p_position st)\<rparr>)"
proof -
  have "tryStatement n (parseStatement n) tok st = Ok None (skipToNextStatement st)"
    using assms(2) by (auto simp: tryStatement_def isStatementStart_def)
  then show ?thesis
    using assms(1) by (simp add: skipToNextStatement_recovery)
qed

lemma recoveryPosition_ge: "pos \<le> recoveryPosition toks pos"
  by (simp add: recoveryPosition_def Let_def split: list.split)

lemma recoveryPosition_le:
  assumes "pos \<le> length toks"
  shows "recoveryPosition toks pos \<le> length toks"
proof -
  define P where "P = (\<lambda>t. \<not> isRecoveryPoint t)"
  define rest where "rest = drop pos toks"
  have l: "length (takeWhile P rest) + length (dropWhile P rest) = length rest"
    by (metis length_append takeWhile_dropWhile_id)
  have r: "length rest = length toks - pos" by (simp add: rest_def)
  have "recoveryPosition toks pos \<le> pos + length (takeWhile P rest)
      + (case dropWhile P rest of [] \<Rightarrow> 0 | t # ts \<Rightarrow> 1)"
    unfolding recoveryPosition_def Let_def P_def [symmetric] rest_def [symmetric]
    by (simp split: list.split)
  also have "\<dots> \<le> pos + length rest"
    using l by (cases "dropWhile P rest") (simp_all del: dropWhile_eq_Nil_conv)
  finally show ?thesis using assms r by simp
qed

text \<open>A skip that starts at a token other than a block delimiter and a statement start
  moves forward.\<close>

lemma recoveryPosition_progress:
  assumes "pos < length toks" and "\<not> isStatementStart (toks ! pos)"
    and "t_value (toks ! pos) \<noteq> ''{''" and "t_value (toks ! pos) \<noteq> ''}''"
  shows "pos < recoveryPosition toks pos"
proof (cases "t_value (toks ! pos) = '';''")
  case True
  then show ?thesis using assms(1) by (simp add: recoveryPosition_stop isRecoveryPoint_def)
next
  case False
  with assms have "\<not> isRecoveryPoint (toks ! pos)" by (simp add: isRecoveryPoint_def)
  from recoveryPosition_skip [OF assms(1) this] recoveryPosition_ge [of "pos + 1" toks]
  show ?thesis by simp
qed

text \<open>
  C10, as amended. When the token at the start of a statement is neither one of the seven
  statement keywords, nor an identifier, nor a block delimiter \<open>{\<close> or \<open>}\<close>,
  \<^verbatim>\<open>parseStatement\<close> returns \<^verbatim>\<open>null\<close>; the error list, the tokens and the input are as
  before; and the position has moved forward, past that token at least, to the recovery
  position: after the next \<open>;\<close>, or at the next block delimiter or statement start, or
  at the end of the tokens.
\<close>

theorem unrecognised_statement_skipped:
  assumes "cur st = Some tok" and "\<not> isStatementStart tok"
    and "t_value tok \<noteq> ''{''" and "t_value tok \<noteq> ''}''"
  shows "parseStatement (Suc n) st =
           Ok None (st\<lparr>p_position := recoveryPosition (p_tokens st) (p_position st)\<rparr>)
         \<and> p_errors (st\<lparr>p_position := recoveryPosition (p_tokens st) (p_position st)\<rparr>)
             = p_errors st
         \<and> p_position st < recoveryPosition (p_tokens st) (p_position st)
         \<and> recoveryPosition (p_tokens st) (p_position st) \<le> length (p_tokens st)"
proof -
  from assms(1) have lt: "p_position st < length (p_tokens st)"
    and tok: "tok = p_tokens st ! p_position st"
    by (auto simp: cur_def currentToken_def split: if_splits)
  have "p_position st < recoveryPosition (p_tokens st) (p_position st)"
    using recoveryPosition_progress [OF lt] assms(2-4) tok by simp
  moreover have "recoveryPosition (p_tokens st) (p_position st) \<le> length (p_tokens st)"
    using recoveryPosition_le [of "p_position st" "p_tokens st"] lt by simp
  ultimately show ?thesis
    using parseStatement_unrecognised [OF assms(1,2), of n] by simp
qed

text \<open>
  \<^verbatim>\<open>use sys;\<close>: the keyword \<open>use\<close> is skipped up to the identifier \<open>sys\<close>, and no error
  is recorded.
\<close>

theorem unrecognised_statement_skipped_witness:
  "cur (parserOn ''use sys;'')
     = Some \<lparr>t_type = KEYWORD, t_value = ''use'', t_start = 0, t_end = 3\<rparr>
   \<and> \<not> isStatementStart \<lparr>t_type = KEYWORD, t_value = ''use'', t_start = 0, t_end = 3\<rparr>
   \<and> parseStatement (Suc 0) (parserOn ''use sys;'')
       = Ok None ((parserOn ''use sys;'')\<lparr>p_position := 1\<rparr>)
   \<and> p_errors ((parserOn ''use sys;'')\<lparr>p_position := 1\<rparr>) = []
   \<and> p_position (parserOn ''use sys;'') < 1
   \<and> 1 \<le> length (p_tokens (parserOn ''use sys;''))"
proof -
  have t: "tokenize ''use sys;'' =
      Inr [\<lparr>t_type = KEYWORD, t_value = ''use'', t_start = 0, t_end = 3\<rparr>,
            \<lparr>t_type = IDENTIFIER, t_value = ''sys'', t_start = 4, t_end = 7\<rparr>,
            \<lparr>t_type = SYMBOL, t_value = '';'', t_start = 7, t_end = 8\<rparr>]"
    by (simp add: lexer_eval)
  have c: "cur (parserOn ''use sys;'')
      = Some \<lparr>t_type = KEYWORD, t_value = ''use'', t_start = 0, t_end = 3\<rparr>"
    by (simp add: parserOn_def t cur_def currentToken_def)
  have s: "\<not> isStatementStart \<lparr>t_type = KEYWORD, t_value = ''use'', t_start = 0, t_end = 3\<rparr>"
    by (simp add: isStatementStart_def)
  have b: "t_value \<lparr>t_type = KEYWORD, t_value = ''use'', t_start = 0, t_end = 3\<rparr> \<noteq> ''{''"
    "t_value \<lparr>t_type = KEYWORD, t_value = ''use'', t_start = 0, t_end = 3\<rparr> \<noteq> ''}''"
    by simp_all
  have r: "recoveryPosition (p_tokens (parserOn ''use sys;'')) (p_position (parserOn ''use sys;'')) = 1"
    by (simp add: parserOn_def t recoveryPosition_def isRecoveryPoint_def isStatementStart_def)
  have m: "parseStatement (Suc 0) (parserOn ''use sys;'')
       = Ok None ((parserOn ''use sys;'')\<lparr>p_position := 1\<rparr>)
     \<and> p_errors ((parserOn ''use sys;'')\<lparr>p_position := 1\<rparr>) = p_errors (parserOn ''use sys;'')
     \<and> p_position (parserOn ''use sys;'') < 1
     \<and> 1 \<le> length (p_tokens (parserOn ''use sys;''))"
    using unrecognised_statement_skipped [OF c s b, of 0] unfolding r .
  have e: "p_errors (parserOn ''use sys;'') = []"
    by (simp add: parserOn_def)
  from m show ?thesis unfolding e by (intro conjI c s) simp_all
qed

text \<open>
  C10 as stated fails at a block delimiter: on \<^verbatim>\<open>} x;\<close> the first token is the stray
  symbol \<open>}\<close>, and \<^verbatim>\<open>parseStatement\<close> returns \<^verbatim>\<open>null\<close> with the position still at that
  token. Nothing is skipped.
\<close>

theorem leading_brace_not_skipped:
  "cur (parserOn ''} x;'')
     = Some \<lparr>t_type = SYMBOL, t_value = ''}'', t_start = 0, t_end = 1\<rparr>
   \<and> \<not> isStatementStart \<lparr>t_type = SYMBOL, t_value = ''}'', t_start = 0, t_end = 1\<rparr>
   \<and> parseStatement (Suc 0) (parserOn ''} x;'') = Ok None (parserOn ''} x;'')
   \<and> p_position (parserOn ''} x;'') = 0"
proof -
  have t: "tokenize ''} x;'' =
      Inr [\<lparr>t_type = SYMBOL, t_value = ''}'', t_start = 0, t_end = 1\<rparr>,
            \<lparr>t_type = IDENTIFIER, t_value = ''x'', t_start = 2, t_end = 3\<rparr>,
            \<lparr>t_type = SYMBOL, t_value = '';'', t_start = 3, t_end = 4\<rparr>]"
    by (simp add: lexer_eval)
  have c: "cur (parserOn ''} x;'')
      = Some \<lparr>t_type = SYMBOL, t_value = ''}'', t_start = 0, t_end = 1\<rparr>"
    by (simp add: parserOn_def t cur_def currentToken_def)
  have s: "\<not> isStatementStart \<lparr>t_type = SYMBOL, t_value = ''}'', t_start = 0, t_end = 1\<rparr>"
    by (simp add: isStatementStart_def)
  have r: "recoveryPosition (p_tokens (parserOn ''} x;'')) (p_position (parserOn ''} x;'')) = 0"
    by (simp add: parserOn_def t recoveryPosition_def isRecoveryPoint_def)
  have m: "parseStatement (Suc 0) (parserOn ''} x;'') = Ok None (parserOn ''} x;'')"
    using parseStatement_unrecognised [OF c s, of 0] r by (simp add: parserOn_def)
  show ?thesis by (intro conjI c s m) (simp add: parserOn_def)
qed

text \<open>
  C4, as amended. When the body of the \<^verbatim>\<open>try\<close> of \<^verbatim>\<open>parseStatement\<close> throws,
  \<^verbatim>\<open>parseStatement\<close> returns \<^verbatim>\<open>null\<close>; it appends one syntax error to the errors at the
  throw, made of the thrown message and the offsets of the token the statement started at;
  and from the position of the throw it moves to the recovery position.
\<close>

theorem statement_failure_recovery:
  assumes "cur st = Some tok"
    and "tryStatement n (parseStatement n) tok st = Throw message st1"
  shows "parseStatement (Suc n) st =
           Ok None
             (st1\<lparr>p_errors := p_errors st1 @
                     [\<lparr>se_message = message, se_start = t_start tok, se_end = t_end tok\<rparr>],
                  p_position := recoveryPosition (p_tokens st1) (p_position st1)\<rparr>)"
  using assms by (simp add: skipToNextStatement_recovery addError_def)

text \<open>
  \<^verbatim>\<open>var 5; x;\<close>: the declaration fails at the token \<open>5\<close>; the error is recorded, the
  skip stops after the first \<open>;\<close>, and the statement \<^verbatim>\<open>x;\<close> is parsed.
\<close>

theorem statement_failure_recovery_witness:
  "cur (parserOn ''var 5; x;'')
     = Some \<lparr>t_type = KEYWORD, t_value = ''var'', t_start = 0, t_end = 3\<rparr>
   \<and> tryStatement 0 (parseStatement 0)
        \<lparr>t_type = KEYWORD, t_value = ''var'', t_start = 0, t_end = 3\<rparr> (parserOn ''var 5; x;'')
       = Throw ''Expected identifier at position 4'' ((parserOn ''var 5; x;'')\<lparr>p_position := 1\<rparr>)
   \<and> parseStatement (Suc 0) (parserOn ''var 5; x;'')
       = Ok None ((parserOn ''var 5; x;'')
           \<lparr>p_errors := [\<lparr>se_message = ''Expected identifier at position 4'',
                           se_start = 0, se_end = 3\<rparr>],
            p_position := 3\<rparr>)
   \<and> parseStatement 3 ((parserOn ''var 5; x;'')
           \<lparr>p_errors := [\<lparr>se_message = ''Expected identifier at position 4'',
                           se_start = 0, se_end = 3\<rparr>],
            p_position := 3\<rparr>)
       = Ok (Some (ExpressionStatement (Identifier ''x'' 7 8) 7 9))
           ((parserOn ''var 5; x;'')
             \<lparr>p_errors := [\<lparr>se_message = ''Expected identifier at position 4'',
                             se_start = 0, se_end = 3\<rparr>],
              p_position := 5\<rparr>)"
proof -
  have t: "tokenize ''var 5; x;'' =
      Inr [\<lparr>t_type = KEYWORD, t_value = ''var'', t_start = 0, t_end = 3\<rparr>,
            \<lparr>t_type = NUMBER, t_value = ''5'', t_start = 4, t_end = 5\<rparr>,
            \<lparr>t_type = SYMBOL, t_value = '';'', t_start = 5, t_end = 6\<rparr>,
            \<lparr>t_type = IDENTIFIER, t_value = ''x'', t_start = 7, t_end = 8\<rparr>,
            \<lparr>t_type = SYMBOL, t_value = '';'', t_start = 8, t_end = 9\<rparr>]"
    by (simp add: lexer_eval)
  have c: "cur (parserOn ''var 5; x;'')
      = Some \<lparr>t_type = KEYWORD, t_value = ''var'', t_start = 0, t_end = 3\<rparr>"
    by (simp add: parserOn_def t cur_def currentToken_def)
  have b: "tryStatement 0 (parseStatement 0)
        \<lparr>t_type = KEYWORD, t_value = ''var'', t_start = 0, t_end = 3\<rparr> (parserOn ''var 5; x;'')
       = Throw ''Expected identifier at position 4'' ((parserOn ''var 5; x;'')\<lparr>p_position := 1\<rparr>)"
    by (simp add: parserOn_def t expression_eval statement_eval showNat.simps)
  have r: "recoveryPosition (p_tokens ((parserOn ''var 5; x;'')\<lparr>p_position := 1\<rparr>))
             (p_position ((parserOn ''var 5; x;'')\<lparr>p_position := 1\<rparr>)) = 3"
    by (simp add: parserOn_def t recoveryPosition_def isRecoveryPoint_def isStatementStart_def)
  have e: "((parserOn ''var 5; x;'')\<lparr>p_position := 1\<rparr>)
             \<lparr>p_errors := p_errors ((parserOn ''var 5; x;'')\<lparr>p_position := 1\<rparr>) @
                [\<lparr>se_message = ''Expected identifier at position 4'',
                   se_start = t_start \<lparr>t_type = KEYWORD, t_value = ''var'', t_start = 0, t_end = 3\<rparr>,
                   se_end = t_end \<lparr>t_type = KEYWORD, t_value = ''var'', t_start = 0, t_end = 3\<rparr>\<rparr>],
              p_position := 3\<rparr>
           = (parserOn ''var 5; x;'')
              \<lparr>p_errors := [\<lparr>se_message = ''Expected identifier at position 4'',
                              se_start = 0, se_end = 3\<rparr>],
               p_position := 3\<rparr>"
    by (simp add: parserOn_def)
  have m: "parseStatement (Suc 0) (parserOn ''var 5; x;'')
       = Ok None ((parserOn ''var 5; x;'')
           \<lparr>p_errors := [\<lparr>se_message = ''Expected identifier at position 4'',
                           se_start = 0, se_end = 3\<rparr>],
            p_position := 3\<rparr>)"
    using statement_failure_recovery [OF c b] unfolding r e .
  have n: "parseStatement 3 ((parserOn ''var 5; x;'')
           \<lparr>p_errors := [\<lparr>se_message = ''Expected identifier at position 4'',
                           se_start = 0, se_end = 3\<rparr>],
            p_position := 3\<rparr>)
       = Ok (Some (ExpressionStatement (Identifier ''x'' 7 8) 7 9))
           ((parserOn ''var 5; x;'')
             \<lparr>p_errors := [\<lparr>se_message = ''Expected identifier at position 4'',
                             se_start = 0, se_end = 3\<rparr>],
              p_position := 5\<rparr>)"
    by (simp add: parserOn_def t expression_eval statement_eval)
  show ?thesis by (intro conjI c b m n)
qed

text \<open>
  C4 as stated fails on the range: in \<^verbatim>\<open>var 5;\<close> the failure is at the token \<open>5\<close>
  (offsets 4 to 5, the position in the message), and the recorded range is that of the
  token \<open>var\<close> (offsets 0 to 3).
\<close>

theorem recorded_range_is_first_token:
  "p_tokens (parserOn ''var 5;'') ! 1 = \<lparr>t_type = NUMBER, t_value = ''5'', t_start = 4, t_end = 5\<rparr>
   \<and> parseVariableDeclaration 0 (parserOn ''var 5;'')
       = Throw ''Expected identifier at position 4'' ((parserOn ''var 5;'')\<lparr>p_position := 1\<rparr>)
   \<and> parse 2 newParser ''var 5;''
       = Ok \<lparr>prog_body = [],
             prog_errors = Some [\<lparr>se_message = ''Expected identifier at position 4'',
                                  se_start = 0, se_end = 3\<rparr>]\<rparr>
           ((parserOn ''var 5;'')
              \<lparr>p_errors := [\<lparr>se_message = ''Expected identifier at position 4'',
                              se_start = 0, se_end = 3\<rparr>],
               p_position := 3\<rparr>)"
proof -
  have t: "tokenize ''var 5;'' =
      Inr [\<lparr>t_type = KEYWORD, t_value = ''var'', t_start = 0, t_end = 3\<rparr>,
            \<lparr>t_type = NUMBER, t_value = ''5'', t_start = 4, t_end = 5\<rparr>,
            \<lparr>t_type = SYMBOL, t_value = '';'', t_start = 5, t_end = 6\<rparr>]"
    by (simp add: lexer_eval)
  show ?thesis
    by (simp add: parserOn_def t expression_eval statement_eval showNat.simps isSpace_def)
qed

text \<open>
  C1 fails on the code. On the text \<open>}\<close> the statement loop of \<^verbatim>\<open>parse\<close> makes no
  progress: \<^verbatim>\<open>parseStatement\<close> hands the token to \<^verbatim>\<open>skipToNextStatement\<close>, which
  returns at a block delimiter without consuming it, and the loop sees the same position
  again. No amount of fuel lets \<open>parse\<close> return.
\<close>

lemma tokenize_closing_brace:
  "tokenize ''}'' = Inr [\<lparr>t_type = SYMBOL, t_value = ''}'', t_start = 0, t_end = 1\<rparr>]"
  by (simp add: lexer_eval)

lemma parseStatement_closing_brace:
  "parseStatement n (parserOn ''}'') = Timeout
   \<or> parseStatement n (parserOn ''}'') = Ok None (parserOn ''}'')"
proof (cases n)
  case 0
  then show ?thesis by simp
next
  case (Suc m)
  have c: "cur (parserOn ''}'') = Some \<lparr>t_type = SYMBOL, t_value = ''}'', t_start = 0, t_end = 1\<rparr>"
    by (simp add: parserOn_def tokenize_closing_brace cur_def currentToken_def)
  have s: "\<not> isStatementStart \<lparr>t_type = SYMBOL, t_value = ''}'', t_start = 0, t_end = 1\<rparr>"
    by (simp add: isStatementStart_def)
  have r: "recoveryPosition (p_tokens (parserOn ''}'')) (p_position (parserOn ''}'')) = 0"
    by (simp add: parserOn_def tokenize_closing_brace recoveryPosition_def isRecoveryPoint_def)
  have "parseStatement (Suc m) (parserOn ''}'') = Ok None (parserOn ''}'')"
    using parseStatement_unrecognised [OF c s, of m] r by (simp add: parserOn_def)
  then show ?thesis using Suc by simp
qed

lemma parseLoop_closing_brace: "parseLoop n [] (parserOn ''}'') = Timeout"
proof (induction n)
  case 0
  then show ?case by simp
next
  case (Suc n)
  have p: "p_position (parserOn ''}'') < length (p_tokens (parserOn ''}''))"
    by (simp add: parserOn_def tokenize_closing_brace)
  from parseStatement_closing_brace [of n] show ?case
  proof
    assume "parseStatement n (parserOn ''}'') = Timeout"
    then show ?thesis using p by simp
  next
    assume "parseStatement n (parserOn ''}'') = Ok None (parserOn ''}'')"
    then show ?thesis using p Suc.IH by (simp add: pushStatement_def)
  qed
qed

theorem parse_closing_brace_never_returns: "parse n newParser ''}'' = Timeout"
proof -
  have "newParser\<lparr>p_input := ''}'',
          p_tokens := [\<lparr>t_type = SYMBOL, t_value = ''}'', t_start = 0, t_end = 1\<rparr>],
          p_position := 0\<rparr> = parserOn ''}''"
    by (simp add: newParser_def parserOn_def tokenize_closing_brace)
  then show ?thesis
    using parseLoop_closing_brace [of n]
    by (simp add: parse_def tokenize_closing_brace isSpace_def)
qed

section \<open>Properties of the tokenizer: the fatal error\<close>

lemma lexerAfter_loop:
  "lexerAfter input k = Some (current, toks) \<Longrightarrow> tokenizeLoop input current toks = tokenize input"
proof (induction k arbitrary: current toks)
  case 0
  then show ?case by (simp add: tokenize_def)
next
  case (Suc k)
  from Suc.prems obtain c0 t0 where
    a: "lexerAfter input k = Some (c0, t0)" and lt: "c0 < length input"
    and s: "tokenizeStep input c0 t0 = Inr (current, toks)"
    by (auto split: option.splits if_splits sum.splits)
  have "tokenizeLoop input c0 t0 = tokenizeLoop input current toks"
    using lt s by (subst tokenizeLoop.simps) simp
  with Suc.IH [OF a] show ?case by simp
qed

lemma tokenizeStep_throws:
  "tokenizeStep input current toks = Inl message \<Longrightarrow>
     (input ! current = CHR 0x22 \<or> input ! current = CHR 0x27) \<and>
     length input \<le> scanString input (input ! current) (current + 1) \<and>
     message = unterminatedMessage current"
  by (auto simp: tokenizeStep_def Let_def unterminatedMessage_def split: if_splits)

lemma tokenizeStep_unterminated:
  assumes "input ! current = CHR 0x22 \<or> input ! current = CHR 0x27"
    and "length input \<le> scanString input (input ! current) (current + 1)"
  shows "tokenizeStep input current toks = Inl (unterminatedMessage current)"
  using assms(1)
proof
  assume q: "input ! current = CHR 0x22"
  with assms(2) have "length input \<le> scanString input (CHR 0x22) (current + 1)" by simp
  with q show ?thesis
    by (simp add: tokenizeStep_def Let_def unterminatedMessage_def isSpace_def)
next
  assume q: "input ! current = CHR 0x27"
  with assms(2) have "length input \<le> scanString input (CHR 0x27) (current + 1)" by simp
  with q show ?thesis
    by (simp add: tokenizeStep_def Let_def unterminatedMessage_def isSpace_def)
qed

lemma tokenizeLoop_throws:
  "tokenizeLoop input current toks = Inl message \<Longrightarrow>
   lexerAfter input k = Some (current, toks) \<Longrightarrow>
   \<exists>start. unterminatedStringAt input start \<and> message = unterminatedMessage start"
proof (induction input current toks arbitrary: k rule: tokenizeLoop.induct)
  case (1 input current toks)
  from "1.prems"(1) have lt: "current < length input"
    by (subst (asm) tokenizeLoop.simps) (simp split: if_splits)
  show ?case
  proof (cases "tokenizeStep input current toks")
    case (Inl m)
    with "1.prems"(1) lt have "m = message"
      by (subst (asm) tokenizeLoop.simps) simp
    with Inl tokenizeStep_throws [of input current toks message] lt "1.prems"(2)
    have "unterminatedStringAt input current \<and> message = unterminatedMessage current"
      by (auto simp: unterminatedStringAt_def)
    then show ?thesis by blast
  next
    case (Inr b)
    obtain c' t' where b: "b = (c', t')" by (cases b)
    have l: "tokenizeLoop input c' t' = Inl message"
      using "1.prems"(1) lt Inr b by (subst (asm) tokenizeLoop.simps) simp
    have r: "lexerAfter input (Suc k) = Some (c', t')"
      using "1.prems"(2) lt Inr b by simp
    from "1.IH" [OF lt Inr b [symmetric] l r] show ?thesis .
  qed
qed

text \<open>A quote that does not occur again is never closed.\<close>

lemma scanString_no_quote:
  "quote \<notin> set (drop current input) \<Longrightarrow> length input \<le> scanString input quote current"
proof (induction input quote current rule: scanString.induct)
  case (1 input quote current)
  show ?case
  proof (cases "current < length input")
    case False
    then show ?thesis by (subst scanString.simps) simp
  next
    case True
    then have d: "drop current input = input ! current # drop (Suc current) input"
      by (simp add: Cons_nth_drop_Suc)
    with "1.prems" have ne: "input ! current \<noteq> quote"
      and r1: "quote \<notin> set (drop (current + 1) input)" by auto
    have r2: "quote \<notin> set (drop (current + 2) input)"
      using r1 in_set_dropD [of quote 1 "drop (current + 1) input"] by (auto simp: add.commute)
    show ?thesis
      using True ne "1.IH"(1) [OF _ _ r2] "1.IH"(2) [OF _ _ r1]
      by (subst scanString.simps) auto
  qed
qed

lemma quote_not_blank:
  assumes "start < length input" and "input ! start = CHR 0x22 \<or> input ! start = CHR 0x27"
  shows "\<not> (input = [] \<or> list_all isSpace input)"
proof -
  have m: "input ! start \<in> set input" using assms(1) by simp
  have "\<not> isSpace (input ! start)" using assms(2) by (auto simp: isSpace_def)
  with m show ?thesis using assms(1) by (auto simp: list_all_iff)
qed

lemma parse_tokenize_throws:
  assumes "tokenize input = Inl message" and "\<not> (input = [] \<or> list_all isSpace input)"
  shows "parse n self input = Throw message (self\<lparr>p_input := input\<rparr>)"
  using assms by (simp add: parse_def)

lemma analyze_parse_throws:
  assumes "parse n newParser input = Throw message st"
  shows "analyzeTypeSafety n input = Some []"
  using assms by (simp add: analyzeTypeSafety_def)

text \<open>
  C8. If the input holds a string literal that never closes, \<^verbatim>\<open>tokenize\<close> throws the
  unterminated-string error and returns no tokens, the error leaves \<^verbatim>\<open>parse\<close> (whatever
  the fuel), and \<^verbatim>\<open>analyzeTypeSafety\<close> returns an empty list of diagnostics. Conversely
  every error of \<^verbatim>\<open>tokenize\<close> is this one: nothing else, an unterminated block comment
  included, makes it throw.
\<close>

theorem unterminated_string_is_fatal:
  "(unterminatedStringAt input start \<longrightarrow>
      tokenize input = Inl (unterminatedMessage start) \<and>
      parse n self input = Throw (unterminatedMessage start) (self\<lparr>p_input := input\<rparr>) \<and>
      analyzeTypeSafety n input = Some [])
   \<and> (tokenize input = Inl message \<longrightarrow>
        (\<exists>start. unterminatedStringAt input start \<and> message = unterminatedMessage start))"
proof (intro conjI impI)
  assume u: "unterminatedStringAt input start"
  then obtain k toks where r: "lexerAfter input k = Some (start, toks)"
    and lt: "start < length input"
    and q: "input ! start = CHR 0x22 \<or> input ! start = CHR 0x27"
    and c: "length input \<le> scanString input (input ! start) (start + 1)"
    unfolding unterminatedStringAt_def by blast
  have "tokenizeLoop input start toks = Inl (unterminatedMessage start)"
    using lt tokenizeStep_unterminated [OF q c, of toks] by (subst tokenizeLoop.simps) simp
  with lexerAfter_loop [OF r] show t: "tokenize input = Inl (unterminatedMessage start)" by simp
  note b = quote_not_blank [OF lt q]
  show "parse n self input = Throw (unterminatedMessage start) (self\<lparr>p_input := input\<rparr>)"
    using t b by (rule parse_tokenize_throws)
  show "analyzeTypeSafety n input = Some []"
    using parse_tokenize_throws [OF t b] by (rule analyze_parse_throws)
next
  assume "tokenize input = Inl message"
  then have "tokenizeLoop input 0 [] = Inl message" by (simp add: tokenize_def)
  then show "\<exists>start. unterminatedStringAt input start \<and> message = unterminatedMessage start"
    by (rule tokenizeLoop_throws [where k = 0]) simp
qed

text \<open>
  The text \<^verbatim>\<open>x = "h\<close>, whose string opens at offset 4; and the text \<^verbatim>\<open>x /* c\<close>, whose
  block comment never closes and which tokenizes.
\<close>

theorem unterminated_string_is_fatal_witness:
  "unterminatedStringAt (''x = '' @ [CHR 0x22, CHR ''h'']) 4
   \<and> tokenize (''x = '' @ [CHR 0x22, CHR ''h'']) = Inl ''Unterminated string at position 4''
   \<and> parse 9 newParser (''x = '' @ [CHR 0x22, CHR ''h''])
       = Throw ''Unterminated string at position 4''
           (newParser\<lparr>p_input := ''x = '' @ [CHR 0x22, CHR ''h'']\<rparr>)
   \<and> analyzeTypeSafety 9 (''x = '' @ [CHR 0x22, CHR ''h'']) = Some []
   \<and> tokenize ''x /* c'' = Inr [\<lparr>t_type = IDENTIFIER, t_value = ''x'', t_start = 0, t_end = 1\<rparr>]"
proof -
  have k: "lexerAfter (''x = '' @ [CHR 0x22, CHR ''h'']) (Suc (Suc (Suc (Suc 0))))
      = Some (4, [\<lparr>t_type = IDENTIFIER, t_value = ''x'', t_start = 0, t_end = 1\<rparr>,
                   \<lparr>t_type = SYMBOL, t_value = ''='', t_start = 2, t_end = 3\<rparr>])"
    by (simp add: lexer_eval)
  have s: "length (''x = '' @ [CHR 0x22, CHR ''h''])
      \<le> scanString (''x = '' @ [CHR 0x22, CHR ''h'']) (CHR 0x22) 5"
    by (simp add: scanString.simps)
  have u: "unterminatedStringAt (''x = '' @ [CHR 0x22, CHR ''h'']) 4"
    unfolding unterminatedStringAt_def
  proof (intro conjI)
    show "\<exists>k toks. lexerAfter (''x = '' @ [CHR 0x22, CHR ''h'']) k = Some (4, toks)"
      using k by blast
    show "length (''x = '' @ [CHR 0x22, CHR ''h''])
        \<le> scanString (''x = '' @ [CHR 0x22, CHR ''h''])
            ((''x = '' @ [CHR 0x22, CHR ''h'']) ! 4) (4 + 1)"
      using s by simp
  qed simp_all
  have m: "unterminatedMessage 4 = ''Unterminated string at position 4''"
    by (simp add: unterminatedMessage_def showNat.simps)
  have c: "tokenize ''x /* c'' = Inr [\<lparr>t_type = IDENTIFIER, t_value = ''x'', t_start = 0, t_end = 1\<rparr>]"
    by (simp add: lexer_eval)
  from unterminated_string_is_fatal [of "''x = '' @ [CHR 0x22, CHR ''h'']" 4 9 newParser] u
  have "tokenize (''x = '' @ [CHR 0x22, CHR ''h'']) = Inl (unterminatedMessage 4) \<and>
      parse 9 newParser (''x = '' @ [CHR 0x22, CHR ''h''])
        = Throw (unterminatedMessage 4) (newParser\<lparr>p_input := ''x = '' @ [CHR 0x22, CHR ''h'']\<rparr>) \<and>
      analyzeTypeSafety 9 (''x = '' @ [CHR 0x22, CHR ''h'']) = Some []"
    by blast
  then show ?thesis unfolding m using u c by blast
qed

section \<open>Properties of the parser: the missing semicolon\<close>

text \<open>
  What the three methods share. When one of them returns its node, the tokens and the
  input are as before, and either the \<open>;\<close> was consumed and the error list is as
  before, or the current token is not \<open>;\<close> and one error is appended, from the
  \<^verbatim>\<open>end\<close> of the node to the end of the line.
\<close>

lemma parseExpressionAt_frame:
  "parseExpressionAt n st = Ok x st1 \<Longrightarrow>
   p_tokens st1 = p_tokens st \<and> p_input st1 = p_input st \<and> p_errors st1 = p_errors st"
  by (auto simp: parseExpressionAt_def split: result.splits)

lemma advance_frame:
  "p_tokens (advance st) = p_tokens st \<and> p_input (advance st) = p_input st
   \<and> p_errors (advance st) = p_errors st"
  by (simp add: advance_def)

text \<open>After the \<open>;\<close> is consumed it is the token before the position.\<close>

lemma advance_semicolon:
  assumes "curIs st '';''"
  shows "0 < p_position (advance st) \<and> p_position (advance st) \<le> length (p_tokens st)
         \<and> t_value (p_tokens st ! (p_position (advance st) - 1)) = '';''"
  using assms
  by (auto simp: curIs_def currentIs_def currentToken_def advance_def nextToken_def
           split: if_splits)

lemma parseAssignmentExpression_semicolon:
  assumes "parseAssignmentExpression n left st = Ok node st'"
  shows "p_tokens st' = p_tokens st \<and> p_input st' = p_input st \<and>
     ((p_errors st' = p_errors st \<and> 0 < p_position st' \<and> p_position st' \<le> length (p_tokens st)
        \<and> t_value (p_tokens st ! (p_position st' - 1)) = '';'')
      \<or> (\<not> curIs st' '';'' \<and>
          (\<exists>e. stmt_end node = Some e \<and>
             p_errors st' = p_errors st @
               [\<lparr>se_message = ''Missing semicolon at end of assignment'', se_start = e,
                 se_end = findEndOfLine (p_input st) e\<rparr>])))"
proof -
  from assms obtain right st1 where
    x: "parseExpressionAt n (advance st) = Ok right st1"
    by (auto simp: parseAssignmentExpression_def split: if_splits result.splits)
  note f = parseExpressionAt_frame [OF x] advance_frame [of st]
  show ?thesis
  proof (cases "curIs st1 '';''")
    case True
    with assms x have "st' = advance st1"
      by (auto simp: parseAssignmentExpression_def Let_def split: if_splits)
    with advance_semicolon [OF True] f advance_frame [of st1] show ?thesis by simp
  next
    case False
    with assms x have
      "st' = addError ''Missing semicolon at end of assignment'' (expr_end right)
               (findEndOfLine (p_input st1) (expr_end right)) st1"
      "node = AssignmentExpression ''='' left right (expr_start left) (expr_end right)"
      by (auto simp: parseAssignmentExpression_def Let_def split: if_splits)
    with False f show ?thesis by (simp add: addError_def curIs_def)
  qed
qed

lemma parseExpressionStatement_semicolon:
  assumes "parseExpressionStatement n st = Ok node st'"
  shows "p_tokens st' = p_tokens st \<and> p_input st' = p_input st \<and>
     ((p_errors st' = p_errors st \<and> 0 < p_position st' \<and> p_position st' \<le> length (p_tokens st)
        \<and> t_value (p_tokens st ! (p_position st' - 1)) = '';'')
      \<or> (\<not> curIs st' '';'' \<and>
          (\<exists>e message. stmt_end node = Some e \<and>
             message \<in> set [''Missing semicolon at end of statement'',
                            ''Missing semicolon at end of assignment''] \<and>
             p_errors st' = p_errors st @
               [\<lparr>se_message = message, se_start = e,
                 se_end = findEndOfLine (p_input st) e\<rparr>])))"
proof -
  from assms obtain x st1 where x: "parseExpressionAt n st = Ok x st1"
    by (auto simp: parseExpressionStatement_def split: result.splits)
  note f = parseExpressionAt_frame [OF x]
  show ?thesis
  proof (cases "isIdentifier x \<and> curIs st1 ''=''")
    case True
    with assms x have "parseAssignmentExpression n x st1 = Ok node st'"
      by (simp add: parseExpressionStatement_def)
    from parseAssignmentExpression_semicolon [OF this] f show ?thesis by auto
  next
    case na: False
    show ?thesis
    proof (cases "curIs st1 '';''")
      case True
      with assms x na have "st' = advance st1"
        by (auto simp: parseExpressionStatement_def Let_def split: if_splits)
      with advance_semicolon [OF True] f advance_frame [of st1] show ?thesis by simp
    next
      case False
      with assms x na have
        "st' = addError ''Missing semicolon at end of statement'' (expr_end x)
                 (findEndOfLine (p_input st1) (expr_end x)) st1"
        "node = ExpressionStatement x (expr_start x) (expr_end x)"
        by (auto simp: parseExpressionStatement_def Let_def split: if_splits)
      with False f show ?thesis by (simp add: addError_def curIs_def)
    qed
  qed
qed

lemma parseVariableDeclaration_semicolon:
  assumes "parseVariableDeclaration n st = Ok node st'"
  shows "p_tokens st' = p_tokens st \<and> p_input st' = p_input st \<and>
     ((p_errors st' = p_errors st \<and> 0 < p_position st' \<and> p_position st' \<le> length (p_tokens st)
        \<and> t_value (p_tokens st ! (p_position st' - 1)) = '';'')
      \<or> (\<not> curIs st' '';'' \<and>
          (\<exists>e. stmt_end node = Some e \<and>
             p_errors st' = p_errors st @
               [\<lparr>se_message = ''Missing semicolon at end of variable declaration'',
                 se_start = e, se_end = findEndOfLine (p_input st) e\<rparr>])))"
proof -
  define st1 where "st1 = advance st"
  define typed where
    "typed = (case cur st1 of None \<Rightarrow> False | Some t \<Rightarrow> isTypeKeyword (t_value t))"
  define st2 where "st2 = (if typed then advance st1 else st1)"
  define st3 where "st3 = advance st2"
  define declaredType where "declaredType = (if typed then map_option t_value (cur st1) else None)"
  have f3: "p_tokens st3 = p_tokens st \<and> p_input st3 = p_input st \<and> p_errors st3 = p_errors st"
    by (simp add: st3_def st2_def st1_def advance_def)
  from assms obtain startToken nameToken ini st4 where
    s: "cur st = Some startToken"
    and nt: "cur st2 = Some nameToken"
    and i: "(if curIs st3 ''='' then
              (case parseExpressionAt n (advance st3) of
                 Ok x s \<Rightarrow> Ok (Some x) s
               | Throw m s \<Rightarrow> Throw m s
               | Timeout \<Rightarrow> Timeout)
            else Ok None st3) = Ok ini st4"
    and r: "(if curIs st4 '';'' then
              Ok (VariableDeclaration declaredType (t_value nameToken) ini (t_start startToken)
                    (case cur (advance st4) of Some t \<Rightarrow> t_start t
                     | None \<Rightarrow> t_end nameToken + 1)) (advance st4)
            else
              Ok (VariableDeclaration declaredType (t_value nameToken) ini (t_start startToken)
                    (t_end nameToken))
                 (addError ''Missing semicolon at end of variable declaration''
                    (t_end nameToken) (findEndOfLine (p_input st4) (t_end nameToken)) st4))
           = Ok node st'"
    unfolding parseVariableDeclaration_def Let_def st1_def [symmetric] typed_def [symmetric]
      st2_def [symmetric] st3_def [symmetric] declaredType_def [symmetric]
    by (auto split: option.splits if_splits result.splits)
  have f4: "p_tokens st4 = p_tokens st \<and> p_input st4 = p_input st \<and> p_errors st4 = p_errors st"
  proof (cases "curIs st3 ''=''")
    case True
    with i obtain x where "parseExpressionAt n (advance st3) = Ok x st4"
      by (auto split: result.splits)
    from parseExpressionAt_frame [OF this] f3 show ?thesis by (simp add: advance_def)
  next
    case False
    with i f3 show ?thesis by simp
  qed
  show ?thesis
  proof (cases "curIs st4 '';''")
    case True
    with r have "st' = advance st4" by simp
    with advance_semicolon [OF True] f4 advance_frame [of st4] show ?thesis by simp
  next
    case False
    with r have
      "st' = addError ''Missing semicolon at end of variable declaration''
               (t_end nameToken) (findEndOfLine (p_input st4) (t_end nameToken)) st4"
      "node = VariableDeclaration declaredType (t_value nameToken) ini (t_start startToken)
                (t_end nameToken)"
      by simp_all
    with False f4 show ?thesis by (simp add: addError_def curIs_def)
  qed
qed

text \<open>
  The end of the line, in the words of the specification: from the offset \<open>i\<close>, the
  characters up to the next line feed or carriage return, or up to the end of the input.
\<close>

lemma findEndOfLine_line:
  "i \<le> length input \<Longrightarrow>
   findEndOfLine input i
     = i + length (takeWhile (\<lambda>c. c \<noteq> CHR 0x0A \<and> c \<noteq> CHR 0x0D) (drop i input))"
proof (induction input i rule: findEndOfLine.induct)
  case (1 input i)
  show ?case
  proof (cases "i < length input")
    case True
    then have d: "drop i input = input ! i # drop (Suc i) input"
      by (simp add: Cons_nth_drop_Suc)
    show ?thesis
    proof (cases "input ! i = CHR 0x0A \<or> input ! i = CHR 0x0D")
      case stop: True
      then show ?thesis using True d by (subst findEndOfLine.simps) auto
    next
      case False
      with True "1.IH" have
        "findEndOfLine input (i + 1)
           = i + 1 + length (takeWhile (\<lambda>c. c \<noteq> CHR 0x0A \<and> c \<noteq> CHR 0x0D) (drop (i + 1) input))"
        by simp
      with True False d show ?thesis by (subst findEndOfLine.simps) simp
    qed
  next
    case False
    with "1.prems" show ?thesis by (subst findEndOfLine.simps) simp
  qed
qed

text \<open>
  C2 fails on the code, for a variable declaration with an initialiser. In
  \<^verbatim>\<open>var x = 5\<close>, with no \<open>;\<close>, the declaration is parsed and returned and one
  missing-semicolon error is recorded; but its range starts at offset 5, the end of the
  name \<open>x\<close>, and not at offset 9, where the statement ends with its last token \<open>5\<close>.
  The other two methods start the range where the statement ends: for the assignment
  \<^verbatim>\<open>x = 5\<close> at offset 5, the end of its last token. With a second line after the
  declaration the range still starts at the end of the name, and ends at the line feed.
\<close>

theorem missing_semicolon_range_starts_at_name:
  "parse 4 newParser ''var x = 5''
     = Ok \<lparr>prog_body =
             [VariableDeclaration None ''x'' (Some (Literal (NumberValue True) ''5'' 8 9)) 0 5],
           prog_errors =
             Some [\<lparr>se_message = ''Missing semicolon at end of variable declaration'',
                     se_start = 5, se_end = 9\<rparr>]\<rparr>
          ((parserOn ''var x = 5'')
             \<lparr>p_position := 4,
              p_errors := [\<lparr>se_message = ''Missing semicolon at end of variable declaration'',
                             se_start = 5, se_end = 9\<rparr>]\<rparr>)
   \<and> last (p_tokens (parserOn ''var x = 5''))
       = \<lparr>t_type = NUMBER, t_value = ''5'', t_start = 8, t_end = 9\<rparr>
   \<and> parse 4 newParser ''x = 5''
     = Ok \<lparr>prog_body =
             [AssignmentExpression ''='' (Identifier ''x'' 0 1)
                (Literal (NumberValue True) ''5'' 4 5) 0 5],
           prog_errors =
             Some [\<lparr>se_message = ''Missing semicolon at end of assignment'',
                     se_start = 5, se_end = 5\<rparr>]\<rparr>
          ((parserOn ''x = 5'')
             \<lparr>p_position := 3,
              p_errors := [\<lparr>se_message = ''Missing semicolon at end of assignment'',
                             se_start = 5, se_end = 5\<rparr>]\<rparr>)
   \<and> last (p_tokens (parserOn ''x = 5''))
       = \<lparr>t_type = NUMBER, t_value = ''5'', t_start = 4, t_end = 5\<rparr>
   \<and> parse 5 newParser (''var x = 5'' @ [CHR 0x0A] @ ''y;'')
     = Ok \<lparr>prog_body =
             [VariableDeclaration None ''x'' (Some (Literal (NumberValue True) ''5'' 8 9)) 0 5,
              ExpressionStatement (Identifier ''y'' 10 11) 10 12],
           prog_errors =
             Some [\<lparr>se_message = ''Missing semicolon at end of variable declaration'',
                     se_start = 5, se_end = 9\<rparr>]\<rparr>
          ((parserOn (''var x = 5'' @ [CHR 0x0A] @ ''y;''))
             \<lparr>p_position := 6,
              p_errors := [\<lparr>se_message = ''Missing semicolon at end of variable declaration'',
                             se_start = 5, se_end = 9\<rparr>]\<rparr>)"
proof -
  have t: "tokenize ''var x = 5'' =
      Inr [\<lparr>t_type = KEYWORD, t_value = ''var'', t_start = 0, t_end = 3\<rparr>,
            \<lparr>t_type = IDENTIFIER, t_value = ''x'', t_start = 4, t_end = 5\<rparr>,
            \<lparr>t_type = SYMBOL, t_value = ''='', t_start = 6, t_end = 7\<rparr>,
            \<lparr>t_type = NUMBER, t_value = ''5'', t_start = 8, t_end = 9\<rparr>]"
    by (simp add: lexer_eval)
  have u: "tokenize ''x = 5'' =
      Inr [\<lparr>t_type = IDENTIFIER, t_value = ''x'', t_start = 0, t_end = 1\<rparr>,
            \<lparr>t_type = SYMBOL, t_value = ''='', t_start = 2, t_end = 3\<rparr>,
            \<lparr>t_type = NUMBER, t_value = ''5'', t_start = 4, t_end = 5\<rparr>]"
    by (simp add: lexer_eval)
  have a: "parse 4 newParser ''var x = 5''
     = Ok \<lparr>prog_body =
             [VariableDeclaration None ''x'' (Some (Literal (NumberValue True) ''5'' 8 9)) 0 5],
           prog_errors =
             Some [\<lparr>se_message = ''Missing semicolon at end of variable declaration'',
                     se_start = 5, se_end = 9\<rparr>]\<rparr>
          ((parserOn ''var x = 5'')
             \<lparr>p_position := 4,
              p_errors := [\<lparr>se_message = ''Missing semicolon at end of variable declaration'',
                             se_start = 5, se_end = 9\<rparr>]\<rparr>)"
    by (simp add: parserOn_def t expression_eval statement_eval isSpace_def)
  have b: "parse 4 newParser ''x = 5''
     = Ok \<lparr>prog_body =
             [AssignmentExpression ''='' (Identifier ''x'' 0 1)
                (Literal (NumberValue True) ''5'' 4 5) 0 5],
           prog_errors =
             Some [\<lparr>se_message = ''Missing semicolon at end of assignment'',
                     se_start = 5, se_end = 5\<rparr>]\<rparr>
          ((parserOn ''x = 5'')
             \<lparr>p_position := 3,
              p_errors := [\<lparr>se_message = ''Missing semicolon at end of assignment'',
                             se_start = 5, se_end = 5\<rparr>]\<rparr>)"
    by (simp add: parserOn_def u expression_eval statement_eval isSpace_def)
  have c: "parse 5 newParser (''var x = 5'' @ [CHR 0x0A] @ ''y;'')
     = Ok \<lparr>prog_body =
             [VariableDeclaration None ''x'' (Some (Literal (NumberValue True) ''5'' 8 9)) 0 5,
              ExpressionStatement (Identifier ''y'' 10 11) 10 12],
           prog_errors =
             Some [\<lparr>se_message = ''Missing semicolon at end of variable declaration'',
                     se_start = 5, se_end = 9\<rparr>]\<rparr>
          ((parserOn (''var x = 5'' @ [CHR 0x0A] @ ''y;''))
             \<lparr>p_position := 6,
              p_errors := [\<lparr>se_message = ''Missing semicolon at end of variable declaration'',
                             se_start = 5, se_end = 9\<rparr>]\<rparr>)"
    by (simp add: parserOn_def lexer_eval expression_eval statement_eval isSpace_def)
  have d: "last (p_tokens (parserOn ''var x = 5''))
       = \<lparr>t_type = NUMBER, t_value = ''5'', t_start = 8, t_end = 9\<rparr>"
    by (simp add: parserOn_def t)
  have e: "last (p_tokens (parserOn ''x = 5''))
       = \<lparr>t_type = NUMBER, t_value = ''5'', t_start = 4, t_end = 5\<rparr>"
    by (simp add: parserOn_def u)
  show ?thesis by (intro conjI a d b e c)
qed

section \<open>Properties of the tokenizer: the order of the tokens\<close>

lemma tokensOrdered_snoc:
  assumes "tokensOrdered toks" and "\<forall>t \<in> set toks. t_end t \<le> t_start tok"
    and "t_start tok \<le> t_end tok"
  shows "tokensOrdered (toks @ [tok])"
  unfolding tokensOrdered_def
proof (intro conjI allI impI)
  fix i assume "i < length (toks @ [tok])"
  then show "t_start ((toks @ [tok]) ! i) \<le> t_end ((toks @ [tok]) ! i)"
    using assms(1,3) by (cases "i < length toks") (auto simp: tokensOrdered_def nth_append)
next
  fix i j assume ij: "i < j" and j: "j < length (toks @ [tok])"
  show "t_end ((toks @ [tok]) ! i) \<le> t_start ((toks @ [tok]) ! j)"
  proof (cases "j < length toks")
    case True
    with ij assms(1) show ?thesis by (auto simp: tokensOrdered_def nth_append)
  next
    case False
    with j have "j = length toks" by simp
    with ij assms(2) show ?thesis by (auto simp: nth_append)
  qed
qed

text \<open>A turn of the loop leaves the tokens as they are or appends one from \<open>current\<close> to the new \<open>current\<close>.\<close>

lemma tokenizeStep_shape:
  assumes "tokenizeStep input current toks = Inr (current', toks')"
  shows "toks' = toks \<or>
         (\<exists>ty v. toks' = toks @ [\<lparr>t_type = ty, t_value = v, t_start = current, t_end = current'\<rparr>])"
  using assms by (auto simp: tokenizeStep_def Let_def split: if_splits)

lemma tokenizeStep_ordered:
  assumes "tokenizeStep input current toks = Inr (current', toks')"
    and "current < length input"
    and "tokensOrdered toks" and "\<forall>t \<in> set toks. t_end t \<le> current"
  shows "tokensOrdered toks' \<and> (\<forall>t \<in> set toks'. t_end t \<le> current')"
proof -
  have lt: "current < current'" using assms(2,1) by (rule tokenizeStep_progress)
  from tokenizeStep_shape [OF assms(1)] show ?thesis
  proof
    assume "toks' = toks"
    with assms(3,4) lt show ?thesis by auto
  next
    assume "\<exists>ty v. toks' = toks @ [\<lparr>t_type = ty, t_value = v, t_start = current, t_end = current'\<rparr>]"
    then obtain ty v where
      t: "toks' = toks @ [\<lparr>t_type = ty, t_value = v, t_start = current, t_end = current'\<rparr>]"
      by blast
    have "tokensOrdered toks'"
      unfolding t using assms(3,4) lt by (intro tokensOrdered_snoc) auto
    moreover have "\<forall>t \<in> set toks'. t_end t \<le> current'"
      unfolding t using assms(4) lt by auto
    ultimately show ?thesis by simp
  qed
qed

lemma tokenizeLoop_ordered:
  "tokenizeLoop input current toks = Inr result \<Longrightarrow> tokensOrdered toks \<Longrightarrow>
   \<forall>t \<in> set toks. t_end t \<le> current \<Longrightarrow> tokensOrdered result"
proof (induction input current toks rule: tokenizeLoop.induct)
  case (1 input current toks)
  show ?case
  proof (cases "current < length input")
    case False
    with "1.prems"(1,2) show ?thesis by (subst (asm) tokenizeLoop.simps) simp
  next
    case True
    show ?thesis
    proof (cases "tokenizeStep input current toks")
      case (Inl m)
      with "1.prems"(1) True show ?thesis by (subst (asm) tokenizeLoop.simps) simp
    next
      case (Inr b)
      obtain c' t' where b: "b = (c', t')" by (cases b)
      have l: "tokenizeLoop input c' t' = Inr result"
        using "1.prems"(1) True Inr b by (subst (asm) tokenizeLoop.simps) simp
      have s: "tokenizeStep input current toks = Inr (c', t')" using Inr b by simp
      from tokenizeStep_ordered [OF s True "1.prems"(2,3)]
      have "tokensOrdered t'" "\<forall>t \<in> set t'. t_end t \<le> c'" by simp_all
      with "1.IH" [OF True Inr b [symmetric] l] show ?thesis by simp
    qed
  qed
qed

text \<open>The tokens of \<^verbatim>\<open>tokenize\<close> are in order.\<close>

lemma tokenize_ordered: "tokenize input = Inr toks \<Longrightarrow> tokensOrdered toks"
  unfolding tokenize_def by (erule tokenizeLoop_ordered) (simp_all add: tokensOrdered_def)

lemma ordered_start_end:
  "tokensOrdered toks \<Longrightarrow> i \<le> j \<Longrightarrow> j < length toks \<Longrightarrow> t_start (toks ! i) \<le> t_end (toks ! j)"
proof -
  assume a: "tokensOrdered toks" "i \<le> j" "j < length toks"
  show ?thesis
  proof (cases "i = j")
    case True
    with a show ?thesis by (simp add: tokensOrdered_def)
  next
    case False
    with a have "i < j" by simp
    with a have "t_end (toks ! i) \<le> t_start (toks ! j)" "t_start (toks ! i) \<le> t_end (toks ! i)"
      "t_start (toks ! j) \<le> t_end (toks ! j)"
      by (simp_all add: tokensOrdered_def)
    then show ?thesis by simp
  qed
qed

lemma ordered_end_start:
  "tokensOrdered toks \<Longrightarrow> i < j \<Longrightarrow> j < length toks \<Longrightarrow> t_end (toks ! i) \<le> t_start (toks ! j)"
  by (simp add: tokensOrdered_def)

lemma ordered_start_start:
  "tokensOrdered toks \<Longrightarrow> i \<le> j \<Longrightarrow> j < length toks \<Longrightarrow> t_start (toks ! i) \<le> t_start (toks ! j)"
proof -
  assume a: "tokensOrdered toks" "i \<le> j" "j < length toks"
  show ?thesis
  proof (cases "i = j")
    case True
    then show ?thesis by simp
  next
    case False
    with a have "i < j" by simp
    with a have "t_end (toks ! i) \<le> t_start (toks ! j)" "t_start (toks ! i) \<le> t_end (toks ! i)"
      by (simp_all add: tokensOrdered_def)
    then show ?thesis by simp
  qed
qed

lemma ordered_end_end:
  "tokensOrdered toks \<Longrightarrow> i \<le> j \<Longrightarrow> j < length toks \<Longrightarrow> t_end (toks ! i) \<le> t_end (toks ! j)"
proof -
  assume a: "tokensOrdered toks" "i \<le> j" "j < length toks"
  show ?thesis
  proof (cases "i = j")
    case True
    then show ?thesis by simp
  next
    case False
    with a have "i < j" by simp
    with a have "t_end (toks ! i) \<le> t_start (toks ! j)" "t_start (toks ! j) \<le> t_end (toks ! j)"
      by (simp_all add: tokensOrdered_def)
    then show ?thesis by simp
  qed
qed

section \<open>Properties of the parser: the offsets of expressions\<close>

lemma currentToken_Some: "currentToken toks pos = Some t \<longleftrightarrow> pos < length toks \<and> t = toks ! pos"
  by (auto simp: currentToken_def)

lemma currentToken_None: "currentToken toks pos = None \<longleftrightarrow> length toks \<le> pos"
  by (auto simp: currentToken_def)

lemma currentIs_iff: "currentIs toks pos v \<longleftrightarrow> pos < length toks \<and> t_value (toks ! pos) = v"
  by (auto simp: currentIs_def currentToken_def)

lemma nextToken_lt: "pos < length toks \<Longrightarrow> nextToken toks pos = pos + 1"
  by (simp add: nextToken_def)

lemma exprOk_offsets: "exprOk x \<Longrightarrow> expr_start x \<le> expr_end x"
  by (cases x) simp_all

lemma exprsOk_append: "exprsOk (xs @ ys) \<longleftrightarrow> exprsOk xs \<and> exprsOk ys"
  by (induction xs) simp_all

lemma exprSpecD: "exprSpec toks f \<Longrightarrow> f pos = Ok x pos' \<Longrightarrow> spanOk toks pos x pos'"
  by (simp add: exprSpec_def)

text \<open>A token consumed alone is a span of its own.\<close>

lemma spanOk_token:
  assumes "tokensOrdered toks" and "pos < length toks"
    and "expr_start x = t_start (toks ! pos)" and "expr_end x = t_end (toks ! pos)"
    and "exprOk x"
  shows "spanOk toks pos x (pos + 1)"
  using assms by (simp add: spanOk_def)

text \<open>The end of a span is no later than the start of any token at or after its last position.\<close>

lemma spanOk_before:
  assumes "tokensOrdered toks" and "spanOk toks p x q" and "q \<le> r" and "r < length toks"
  shows "expr_end x \<le> t_start (toks ! r)"
proof -
  from assms(2) have "expr_end x \<le> t_end (toks ! (q - 1))" and "0 < q"
    by (simp_all add: spanOk_def)
  moreover have "t_end (toks ! (q - 1)) \<le> t_start (toks ! r)"
    using assms(1,3,4) \<open>0 < q\<close> by (intro ordered_end_start) simp_all
  ultimately show ?thesis by simp
qed

lemma spanOk_start:
  assumes "tokensOrdered toks" and "spanOk toks p x q" and "p0 \<le> p"
  shows "t_start (toks ! p0) \<le> expr_start x"
proof -
  from assms(2) have "t_start (toks ! p) \<le> expr_start x" and "p < length toks"
    by (simp_all add: spanOk_def)
  moreover have "t_start (toks ! p0) \<le> t_start (toks ! p)"
    using assms(1,3) \<open>p < length toks\<close> by (intro ordered_start_start) simp_all
  ultimately show ?thesis by simp
qed

text \<open>A node made of a left operand, an operator token and a right operand.\<close>

lemma spanOk_binary:
  assumes ord: "tokensOrdered toks"
    and l: "spanOk toks p0 x pos" and r: "spanOk toks (pos + 1) right q"
    and n: "expr_start node = expr_start x" "expr_end node = expr_end right"
    and ok: "exprOk node \<longleftrightarrow> expr_start x \<le> expr_end right \<and> exprOk x \<and> exprOk right"
  shows "spanOk toks p0 node q"
proof -
  from r have q: "pos + 1 < q" "q \<le> length toks" by (simp_all add: spanOk_def)
  have "expr_end x \<le> t_start (toks ! (pos + 1))"
    using ord l q by (intro spanOk_before [where q = pos]) simp_all
  also have "\<dots> \<le> expr_start right" using r by (simp add: spanOk_def)
  also have "\<dots> \<le> expr_end right" using r by (simp add: spanOk_def exprOk_offsets)
  finally have "expr_end x \<le> expr_end right" .
  moreover have "expr_start x \<le> expr_end x" using l by (simp add: spanOk_def exprOk_offsets)
  ultimately have "expr_start x \<le> expr_end right" by simp
  with l r q n ok show ?thesis by (simp add: spanOk_def)
qed

lemma expressionList_ok:
  assumes sp: "exprSpec toks expression"
  shows "expressionList n expression toks acc pos = Ok xs pos' \<Longrightarrow> exprsOk acc \<Longrightarrow>
         exprsOk xs \<and> pos < pos' \<and> pos' \<le> length toks"
proof (induction n arbitrary: acc pos)
  case 0
  then show ?case by simp
next
  case (Suc n)
  from Suc.prems(1) obtain x pos1 where x: "expression pos = Ok x pos1"
    by (auto split: result.splits)
  from exprSpecD [OF sp x] have s: "pos < pos1" "pos1 \<le> length toks" "exprOk x"
    by (simp_all add: spanOk_def)
  show ?case
  proof (cases "currentIs toks pos1 '',''")
    case True
    then have lt: "pos1 < length toks" by (simp add: currentIs_iff)
    from Suc.prems(1) x True
    have "expressionList n expression toks (acc @ [x]) (pos1 + 1) = Ok xs pos'"
      by (simp add: nextToken_lt [OF lt])
    from Suc.IH [OF this] Suc.prems(2) s show ?thesis by (simp add: exprsOk_append)
  next
    case False
    with Suc.prems x s show ?thesis by (auto simp: exprsOk_append)
  qed
qed

lemma parseCallExpression_ok:
  assumes ord: "tokensOrdered toks" and sp: "exprSpec toks expression"
    and r: "parseCallExpression n expression toks callee pos = Ok x pos'"
    and c: "spanOk toks p0 callee pos"
  shows "spanOk toks p0 x pos'"
proof -
  from r have lt: "pos < length toks"
    by (auto simp: parseCallExpression_def currentIs_iff split: if_splits)
  from r lt obtain args pos2 where
    a: "(if currentToken toks (pos + 1) \<noteq> None \<and> \<not> currentIs toks (pos + 1) '')''
         then expressionList n expression toks [] (pos + 1) else Ok [] (pos + 1)) = Ok args pos2"
    and lt2: "pos2 < length toks"
    and x: "x = CallExpression callee args (expr_start callee) (t_end (toks ! pos2))"
    and p: "pos' = pos2 + 1"
    by (auto simp: parseCallExpression_def Let_def currentIs_iff nextToken_lt currentToken_Some
             split: if_splits result.splits option.splits)
  have b: "exprsOk args \<and> pos + 1 \<le> pos2"
  proof (cases "currentToken toks (pos + 1) \<noteq> None \<and> \<not> currentIs toks (pos + 1) '')''")
    case True
    with a have "expressionList n expression toks [] (pos + 1) = Ok args pos2" by simp
    from expressionList_ok [OF sp this] show ?thesis by simp
  next
    case False
    with a show ?thesis by auto
  qed
  from c have c': "p0 < pos" "exprOk callee" "t_start (toks ! p0) \<le> expr_start callee"
    "expr_start callee \<le> expr_end callee"
    by (simp_all add: spanOk_def exprOk_offsets)
  have "expr_end callee \<le> t_start (toks ! pos2)"
    using ord c b lt2 by (intro spanOk_before [where q = pos]) simp_all
  also have "\<dots> \<le> t_end (toks ! pos2)" using ord lt2 by (simp add: tokensOrdered_def)
  finally have "expr_start callee \<le> t_end (toks ! pos2)" using c' by simp
  with b c' lt2 show ?thesis by (simp add: spanOk_def x p)
qed

lemma parseMemberExpression_ok:
  assumes ord: "tokensOrdered toks" and sp: "exprSpec toks expression"
    and r: "parseMemberExpression n expression toks obj pos = Ok x pos'"
    and c: "spanOk toks p0 obj pos"
  shows "spanOk toks p0 x pos'"
proof -
  from r have lt: "pos < length toks" and lt1: "pos + 1 < length toks"
    by (auto simp: parseMemberExpression_def Let_def currentIs_iff nextToken_lt currentToken_Some
             split: if_splits option.splits)
  define property where
    "property = Identifier (t_value (toks ! (pos + 1))) (t_start (toks ! (pos + 1)))
                  (t_end (toks ! (pos + 1)))"
  define member where
    "member = MemberExpression obj property (expr_start obj) (expr_end property)"
  have pr: "spanOk toks (pos + 1) property (pos + 1 + 1)"
    using ord lt1 by (intro spanOk_token) (simp_all add: property_def tokensOrdered_def)
  have m: "spanOk toks p0 member (pos + 2)"
    using spanOk_binary [OF ord c pr, of member] by (simp add: member_def)
  from r lt lt1 have
    "(if currentIs toks (pos + 2) ''('' then parseCallExpression n expression toks member (pos + 2)
      else Ok member (pos + 2)) = Ok x pos'"
    by (auto simp: parseMemberExpression_def Let_def currentIs_iff nextToken_lt currentToken_Some
          member_def property_def split: if_splits option.splits)
  then show ?thesis
  proof (cases "currentIs toks (pos + 2) ''(''")
    case True
    assume "(if currentIs toks (pos + 2) ''('' then parseCallExpression n expression toks member (pos + 2)
      else Ok member (pos + 2)) = Ok x pos'"
    with True have "parseCallExpression n expression toks member (pos + 2) = Ok x pos'" by simp
    from parseCallExpression_ok [OF ord sp this m] show ?thesis .
  next
    case False
    assume "(if currentIs toks (pos + 2) ''('' then parseCallExpression n expression toks member (pos + 2)
      else Ok member (pos + 2)) = Ok x pos'"
    with False m show ?thesis by simp
  qed
qed

lemma parseArrayExpression_ok:
  assumes ord: "tokensOrdered toks" and sp: "exprSpec toks expression"
    and r: "parseArrayExpression n expression toks pos = Ok x pos'"
  shows "spanOk toks pos x pos'"
proof -
  from r have lt: "pos < length toks"
    by (auto simp: parseArrayExpression_def currentToken_Some split: option.splits)
  from r lt obtain elements pos2 where
    a: "(if currentToken toks (pos + 1) \<noteq> None \<and> \<not> currentIs toks (pos + 1) '']''
         then expressionList n expression toks [] (pos + 1) else Ok [] (pos + 1))
        = Ok elements pos2"
    and lt2: "pos2 < length toks"
    and x: "x = ArrayExpression elements (t_start (toks ! pos)) (t_end (toks ! pos2))"
    and p: "pos' = pos2 + 1"
    by (auto simp: parseArrayExpression_def Let_def currentIs_iff nextToken_lt currentToken_Some
             split: if_splits result.splits option.splits)
  have b: "exprsOk elements \<and> pos + 1 \<le> pos2"
  proof (cases "currentToken toks (pos + 1) \<noteq> None \<and> \<not> currentIs toks (pos + 1) '']''")
    case True
    with a have "expressionList n expression toks [] (pos + 1) = Ok elements pos2" by simp
    from expressionList_ok [OF sp this] show ?thesis by simp
  next
    case False
    with a show ?thesis by auto
  qed
  have "t_start (toks ! pos) \<le> t_end (toks ! pos2)"
    using ord b lt2 by (intro ordered_start_end) simp_all
  with b lt2 show ?thesis by (simp add: spanOk_def x p)
qed

lemma parseObjectProperty_ok:
  assumes ord: "tokensOrdered toks" and sp: "exprSpec toks expression"
    and r: "parseObjectProperty expression toks pos = Ok x pos'"
  shows "spanOk toks pos x pos'"
proof -
  from r have lt: "pos < length toks" and lt1: "pos + 1 < length toks"
    by (auto simp: parseObjectProperty_def Let_def currentIs_iff nextToken_lt currentToken_Some
             split: if_splits option.splits)
  from r lt lt1 obtain v where
    v: "expression (pos + 2) = Ok v pos'"
    and x: "x = Property (toks ! pos) v (t_start (toks ! pos)) (expr_end v)"
    by (auto simp: parseObjectProperty_def Let_def currentIs_iff nextToken_lt currentToken_Some
             split: if_splits option.splits result.splits)
  from exprSpecD [OF sp v] have s: "spanOk toks (pos + 2) v pos'" .
  have "t_start (toks ! pos) \<le> expr_start v"
    using ord s by (rule spanOk_start) simp
  also have "\<dots> \<le> expr_end v" using s by (simp add: spanOk_def exprOk_offsets)
  finally show ?thesis using s by (simp add: spanOk_def x)
qed

lemma propertyList_ok:
  assumes ord: "tokensOrdered toks" and sp: "exprSpec toks expression"
  shows "propertyList n expression toks acc pos = Ok xs pos' \<Longrightarrow> exprsOk acc \<Longrightarrow>
         exprsOk xs \<and> pos < pos' \<and> pos' \<le> length toks"
proof (induction n arbitrary: acc pos)
  case 0
  then show ?case by simp
next
  case (Suc n)
  from Suc.prems(1) obtain x pos1 where x: "parseObjectProperty expression toks pos = Ok x pos1"
    by (auto split: result.splits)
  from parseObjectProperty_ok [OF ord sp x] have s: "pos < pos1" "pos1 \<le> length toks" "exprOk x"
    by (simp_all add: spanOk_def)
  show ?case
  proof (cases "currentIs toks pos1 '',''")
    case True
    then have lt: "pos1 < length toks" by (simp add: currentIs_iff)
    from Suc.prems(1) x True
    have "propertyList n expression toks (acc @ [x]) (pos1 + 1) = Ok xs pos'"
      by (simp add: nextToken_lt [OF lt])
    from Suc.IH [OF this] Suc.prems(2) s show ?thesis by (simp add: exprsOk_append)
  next
    case False
    with Suc.prems x s show ?thesis by (auto simp: exprsOk_append)
  qed
qed

lemma parseObjectExpression_ok:
  assumes ord: "tokensOrdered toks" and sp: "exprSpec toks expression"
    and r: "parseObjectExpression n expression toks pos = Ok x pos'"
  shows "spanOk toks pos x pos'"
proof -
  from r have lt: "pos < length toks"
    by (auto simp: parseObjectExpression_def currentToken_Some split: option.splits)
  from r lt obtain properties pos2 where
    a: "(if currentToken toks (pos + 1) \<noteq> None \<and> \<not> currentIs toks (pos + 1) ''}''
         then propertyList n expression toks [] (pos + 1) else Ok [] (pos + 1))
        = Ok properties pos2"
    and lt2: "pos2 < length toks"
    and x: "x = ObjectExpression properties (t_start (toks ! pos)) (t_end (toks ! pos2))"
    and p: "pos' = pos2 + 1"
    by (auto simp: parseObjectExpression_def Let_def currentIs_iff nextToken_lt currentToken_Some
             split: if_splits result.splits option.splits)
  have b: "exprsOk properties \<and> pos + 1 \<le> pos2"
  proof (cases "currentToken toks (pos + 1) \<noteq> None \<and> \<not> currentIs toks (pos + 1) ''}''")
    case True
    with a have "propertyList n expression toks [] (pos + 1) = Ok properties pos2" by simp
    from propertyList_ok [OF ord sp this] show ?thesis by simp
  next
    case False
    with a show ?thesis by auto
  qed
  have "t_start (toks ! pos) \<le> t_end (toks ! pos2)"
    using ord b lt2 by (intro ordered_start_end) simp_all
  with b lt2 show ?thesis by (simp add: spanOk_def x p)
qed

lemma parsePrimary_ok:
  assumes ord: "tokensOrdered toks" and sp: "exprSpec toks expression"
    and r: "parsePrimary n expression toks pos = Ok x pos'"
  shows "spanOk toks pos x pos'"
proof -
  from r have lt: "pos < length toks"
    by (auto simp: parsePrimary_def currentToken_Some split: option.splits)
  define tok where "tok = toks ! pos"
  define ident where "ident = Identifier (t_value tok) (t_start tok) (t_end tok)"
  have se: "t_start tok \<le> t_end tok" using ord lt by (simp add: tok_def tokensOrdered_def)
  have c: "currentToken toks pos = Some tok" using lt by (simp add: currentToken_def tok_def)
  have one: "spanOk toks pos y (pos + 1)"
    if "expr_start y = t_start tok" "expr_end y = t_end tok" "exprOk y" for y
    using ord lt that by (intro spanOk_token) (simp_all add: tok_def)
  note r' = r [unfolded parsePrimary_def c option.case nextToken_lt [OF lt] Let_def,
      folded ident_def]
  consider
      (isNumber) "t_type tok = NUMBER"
    | (isString) "t_type tok \<noteq> NUMBER" "t_type tok = STRING"
    | (isBoolean) "t_type tok \<noteq> NUMBER" "t_type tok \<noteq> STRING"
        "t_value tok = ''true'' \<or> t_value tok = ''false''"
    | (isNil) "t_type tok \<noteq> NUMBER" "t_type tok \<noteq> STRING"
        "\<not> (t_value tok = ''true'' \<or> t_value tok = ''false'')" "t_value tok = ''nil''"
    | (isIdent) "t_type tok \<noteq> NUMBER" "t_type tok \<noteq> STRING"
        "\<not> (t_value tok = ''true'' \<or> t_value tok = ''false'')" "t_value tok \<noteq> ''nil''"
        "t_type tok = IDENTIFIER"
    | (isOther) "t_type tok \<noteq> NUMBER" "t_type tok \<noteq> STRING"
        "\<not> (t_value tok = ''true'' \<or> t_value tok = ''false'')" "t_value tok \<noteq> ''nil''"
        "t_type tok \<noteq> IDENTIFIER"
    by blast
  then show ?thesis
  proof cases
    case isNumber
    with r' have "x = Literal (NumberValue (numberIsInteger (t_value tok))) (t_value tok)
        (t_start tok) (t_end tok)" "pos' = pos + 1" by simp_all
    with one [of x] se show ?thesis by simp
  next
    case isString
    with r' have "x = Literal (StringValue (t_value tok)) (t_value tok) (t_start tok) (t_end tok)"
      "pos' = pos + 1" by simp_all
    with one [of x] se show ?thesis by simp
  next
    case isBoolean
    with r' have "x = Literal (BooleanValue (t_value tok = ''true'')) (t_value tok)
        (t_start tok) (t_end tok)" "pos' = pos + 1" by simp_all
    with one [of x] se show ?thesis by simp
  next
    case isNil
    with r' have "x = Literal NullValue (t_value tok) (t_start tok) (t_end tok)"
      "pos' = pos + 1" by simp_all
    with one [of x] se show ?thesis by simp
  next
    case isIdent
    have i: "spanOk toks pos ident (pos + 1)"
      using one [of ident] se by (simp add: ident_def)
    from r' isIdent have b:
      "(if currentIs toks (pos + 1) ''('' then parseCallExpression n expression toks ident (pos + 1)
        else if currentIs toks (pos + 1) ''.'' then
          parseMemberExpression n expression toks ident (pos + 1)
        else Ok ident (pos + 1)) = Ok x pos'"
      by simp
    show ?thesis
    proof (cases "currentIs toks (pos + 1) ''(''")
      case True
      with b have "parseCallExpression n expression toks ident (pos + 1) = Ok x pos'" by simp
      from parseCallExpression_ok [OF ord sp this i] show ?thesis .
    next
      case nc: False
      show ?thesis
      proof (cases "currentIs toks (pos + 1) ''.''")
        case True
        with b nc have "parseMemberExpression n expression toks ident (pos + 1) = Ok x pos'"
          by simp
        from parseMemberExpression_ok [OF ord sp this i] show ?thesis .
      next
        case False
        with b nc i show ?thesis by simp
      qed
    qed
  next
    case isOther
    from r' isOther have b:
      "(if t_value tok = ''('' then
          (case expression (pos + 1) of
             Ok x pos1 \<Rightarrow>
               if \<not> currentIs toks pos1 '')'' then
                 Throw (atPosition toks pos1 (''Expected '' @ quoted '')'')) pos1
               else Ok x (nextToken toks pos1)
           | Throw m p \<Rightarrow> Throw m p
           | Timeout \<Rightarrow> Timeout)
        else if t_value tok = ''['' then parseArrayExpression n expression toks pos
        else if t_value tok = ''{'' then parseObjectExpression n expression toks pos
        else Throw (''Unexpected token '' @ quoted (t_value tok) @ '' at position ''
                      @ showNat (t_start tok)) pos) = Ok x pos'"
      by simp
    show ?thesis
    proof (cases "t_value tok = ''(''")
      case True
      with b obtain pos1 where e: "expression (pos + 1) = Ok x pos1"
        and lt1: "pos1 < length toks" and p: "pos' = pos1 + 1"
        by (auto simp: currentIs_iff nextToken_lt split: result.splits if_splits)
      from exprSpecD [OF sp e] have s: "spanOk toks (pos + 1) x pos1" .
      have a: "t_start (toks ! pos) \<le> expr_start x"
        using ord s by (rule spanOk_start) simp
      have "expr_end x \<le> t_start (toks ! pos1)"
        using ord s lt1 by (intro spanOk_before [where q = pos1]) simp_all
      also have "\<dots> \<le> t_end (toks ! pos1)" using ord lt1 by (simp add: tokensOrdered_def)
      finally show ?thesis using s a p lt1 by (simp add: spanOk_def)
    next
      case np: False
      show ?thesis
      proof (cases "t_value tok = ''[''")
        case True
        with b np have "parseArrayExpression n expression toks pos = Ok x pos'" by simp
        from parseArrayExpression_ok [OF ord sp this] show ?thesis .
      next
        case na: False
        with b np have "parseObjectExpression n expression toks pos = Ok x pos'"
          by (simp split: if_splits)
        from parseObjectExpression_ok [OF ord sp this] show ?thesis .
      qed
    qed
  qed
qed

lemma parseUnary_ok:
  assumes ord: "tokensOrdered toks" and sp: "exprSpec toks expression"
  shows "parseUnary n expression toks pos = Ok x pos' \<Longrightarrow> spanOk toks pos x pos'"
proof (induction n arbitrary: pos x)
  case 0
  then show ?case by simp
next
  case (Suc n)
  show ?case
  proof (cases "currentIs toks pos ''not''")
    case True
    then have lt: "pos < length toks" and c: "currentToken toks pos = Some (toks ! pos)"
      and v: "t_value (toks ! pos) = ''not''"
      by (simp_all add: currentIs_iff currentToken_def)
    from Suc.prems obtain argument where
      a: "parseUnary n expression toks (pos + 1) = Ok argument pos'"
      and x: "x = UnaryExpression ''not'' argument (t_start (toks ! pos)) (expr_end argument)"
      by (auto simp: c v nextToken_lt [OF lt] split: result.splits)
    from Suc.IH [OF a] have s: "spanOk toks (pos + 1) argument pos'" .
    have "t_start (toks ! pos) \<le> expr_start argument"
      using ord s by (rule spanOk_start) simp
    also have "\<dots> \<le> expr_end argument" using s by (simp add: spanOk_def exprOk_offsets)
    finally show ?thesis using s by (simp add: spanOk_def x)
  next
    case False
    with Suc.prems have "parsePrimary n expression toks pos = Ok x pos'"
      by (auto simp: currentIs_def split: option.splits if_splits)
    from parsePrimary_ok [OF ord sp this] show ?thesis .
  qed
qed

lemma multiplicativeLoop_ok:
  assumes ord: "tokensOrdered toks" and sp: "exprSpec toks expression"
  shows "multiplicativeLoop n expression toks x pos = Ok y pos' \<Longrightarrow> spanOk toks p0 x pos \<Longrightarrow>
         spanOk toks p0 y pos'"
proof (induction n arbitrary: x pos)
  case 0
  then show ?case by simp
next
  case (Suc n)
  show ?case
  proof (cases "pos < length toks \<and> t_value (toks ! pos) \<in> set [''*'', ''/'', ''%'']")
    case True
    then have lt: "pos < length toks" and c: "currentToken toks pos = Some (toks ! pos)"
      and i: "currentIs toks pos (t_value (toks ! pos))"
      by (simp_all add: currentToken_def currentIs_iff)
    from Suc.prems(1) True obtain right pos1 where
      r: "parseUnary n expression toks (pos + 1) = Ok right pos1"
      and l: "multiplicativeLoop n expression toks
                (BinaryExpression (t_value (toks ! pos)) x right (expr_start x) (expr_end right)) pos1
              = Ok y pos'"
      by (auto simp: c currentIs_iff nextToken_lt [OF lt] split: result.splits)
    from parseUnary_ok [OF ord sp r] have "spanOk toks (pos + 1) right pos1" .
    from spanOk_binary [OF ord Suc.prems(2) this,
        of "BinaryExpression (t_value (toks ! pos)) x right (expr_start x) (expr_end right)"]
    have "spanOk toks p0 (BinaryExpression (t_value (toks ! pos)) x right (expr_start x) (expr_end right)) pos1"
      by simp
    from Suc.IH [OF l this] show ?thesis .
  next
    case False
    with Suc.prems show ?thesis
      by (auto simp: currentToken_def currentIs_iff split: if_splits)
  qed
qed

lemma parseMultiplicative_ok:
  assumes ord: "tokensOrdered toks" and sp: "exprSpec toks expression"
    and r: "parseMultiplicative n expression toks pos = Ok y pos'"
  shows "spanOk toks pos y pos'"
proof -
  from r obtain x pos1 where a: "parseUnary n expression toks pos = Ok x pos1"
    and l: "multiplicativeLoop n expression toks x pos1 = Ok y pos'"
    by (auto simp: parseMultiplicative_def split: result.splits)
  from multiplicativeLoop_ok [OF ord sp l parseUnary_ok [OF ord sp a]] show ?thesis .
qed

lemma additiveLoop_ok:
  assumes ord: "tokensOrdered toks" and sp: "exprSpec toks expression"
  shows "additiveLoop n expression toks x pos = Ok y pos' \<Longrightarrow> spanOk toks p0 x pos \<Longrightarrow>
         spanOk toks p0 y pos'"
proof (induction n arbitrary: x pos)
  case 0
  then show ?case by simp
next
  case (Suc n)
  show ?case
  proof (cases "pos < length toks \<and> (t_value (toks ! pos) = ''+'' \<or> t_value (toks ! pos) = ''-'')")
    case True
    then have lt: "pos < length toks" and c: "currentToken toks pos = Some (toks ! pos)"
      and i: "currentIs toks pos (t_value (toks ! pos))"
      by (simp_all add: currentToken_def currentIs_iff)
    from Suc.prems(1) True obtain right pos1 where
      r: "parseMultiplicative n expression toks (pos + 1) = Ok right pos1"
      and l: "additiveLoop n expression toks
                (BinaryExpression (t_value (toks ! pos)) x right (expr_start x) (expr_end right)) pos1
              = Ok y pos'"
      by (auto simp: c currentIs_iff nextToken_lt [OF lt] split: result.splits)
    from parseMultiplicative_ok [OF ord sp r] have "spanOk toks (pos + 1) right pos1" .
    from spanOk_binary [OF ord Suc.prems(2) this,
        of "BinaryExpression (t_value (toks ! pos)) x right (expr_start x) (expr_end right)"]
    have "spanOk toks p0 (BinaryExpression (t_value (toks ! pos)) x right (expr_start x) (expr_end right)) pos1"
      by simp
    from Suc.IH [OF l this] show ?thesis .
  next
    case False
    with Suc.prems show ?thesis
      by (auto simp: currentToken_def currentIs_iff split: if_splits)
  qed
qed

lemma parseAdditive_ok:
  assumes ord: "tokensOrdered toks" and sp: "exprSpec toks expression"
    and r: "parseAdditive n expression toks pos = Ok y pos'"
  shows "spanOk toks pos y pos'"
proof -
  from r obtain x pos1 where a: "parseMultiplicative n expression toks pos = Ok x pos1"
    and l: "additiveLoop n expression toks x pos1 = Ok y pos'"
    by (auto simp: parseAdditive_def split: result.splits)
  from additiveLoop_ok [OF ord sp l parseMultiplicative_ok [OF ord sp a]] show ?thesis .
qed

lemma relationalLoop_ok:
  assumes ord: "tokensOrdered toks" and sp: "exprSpec toks expression"
  shows "relationalLoop n expression toks x pos = Ok y pos' \<Longrightarrow> spanOk toks p0 x pos \<Longrightarrow>
         spanOk toks p0 y pos'"
proof (induction n arbitrary: x pos)
  case 0
  then show ?case by simp
next
  case (Suc n)
  show ?case
  proof (cases "pos < length toks \<and> t_value (toks ! pos) \<in> set [''<'', ''<='', ''>'', ''>='']")
    case True
    then have lt: "pos < length toks" and c: "currentToken toks pos = Some (toks ! pos)"
      and i: "currentIs toks pos (t_value (toks ! pos))"
      by (simp_all add: currentToken_def currentIs_iff)
    from Suc.prems(1) True obtain right pos1 where
      r: "parseAdditive n expression toks (pos + 1) = Ok right pos1"
      and l: "relationalLoop n expression toks
                (BinaryExpression (t_value (toks ! pos)) x right (expr_start x) (expr_end right)) pos1
              = Ok y pos'"
      by (auto simp: c currentIs_iff nextToken_lt [OF lt] split: result.splits)
    from parseAdditive_ok [OF ord sp r] have "spanOk toks (pos + 1) right pos1" .
    from spanOk_binary [OF ord Suc.prems(2) this,
        of "BinaryExpression (t_value (toks ! pos)) x right (expr_start x) (expr_end right)"]
    have "spanOk toks p0 (BinaryExpression (t_value (toks ! pos)) x right (expr_start x) (expr_end right)) pos1"
      by simp
    from Suc.IH [OF l this] show ?thesis .
  next
    case False
    with Suc.prems show ?thesis
      by (auto simp: currentToken_def currentIs_iff split: if_splits)
  qed
qed

lemma parseRelational_ok:
  assumes ord: "tokensOrdered toks" and sp: "exprSpec toks expression"
    and r: "parseRelational n expression toks pos = Ok y pos'"
  shows "spanOk toks pos y pos'"
proof -
  from r obtain x pos1 where a: "parseAdditive n expression toks pos = Ok x pos1"
    and l: "relationalLoop n expression toks x pos1 = Ok y pos'"
    by (auto simp: parseRelational_def split: result.splits)
  from relationalLoop_ok [OF ord sp l parseAdditive_ok [OF ord sp a]] show ?thesis .
qed

lemma equalityLoop_ok:
  assumes ord: "tokensOrdered toks" and sp: "exprSpec toks expression"
  shows "equalityLoop n expression toks x pos = Ok y pos' \<Longrightarrow> spanOk toks p0 x pos \<Longrightarrow>
         spanOk toks p0 y pos'"
proof (induction n arbitrary: x pos)
  case 0
  then show ?case by simp
next
  case (Suc n)
  show ?case
  proof (cases "pos < length toks \<and> (t_value (toks ! pos) = ''=='' \<or> t_value (toks ! pos) = ''!='')")
    case True
    then have lt: "pos < length toks" and c: "currentToken toks pos = Some (toks ! pos)"
      and i: "currentIs toks pos (t_value (toks ! pos))"
      by (simp_all add: currentToken_def currentIs_iff)
    from Suc.prems(1) True obtain right pos1 where
      r: "parseRelational n expression toks (pos + 1) = Ok right pos1"
      and l: "equalityLoop n expression toks
                (BinaryExpression (t_value (toks ! pos)) x right (expr_start x) (expr_end right)) pos1
              = Ok y pos'"
      by (auto simp: c currentIs_iff nextToken_lt [OF lt] split: result.splits)
    from parseRelational_ok [OF ord sp r] have "spanOk toks (pos + 1) right pos1" .
    from spanOk_binary [OF ord Suc.prems(2) this,
        of "BinaryExpression (t_value (toks ! pos)) x right (expr_start x) (expr_end right)"]
    have "spanOk toks p0 (BinaryExpression (t_value (toks ! pos)) x right (expr_start x) (expr_end right)) pos1"
      by simp
    from Suc.IH [OF l this] show ?thesis .
  next
    case False
    with Suc.prems show ?thesis
      by (auto simp: currentToken_def currentIs_iff split: if_splits)
  qed
qed

lemma parseEquality_ok:
  assumes ord: "tokensOrdered toks" and sp: "exprSpec toks expression"
    and r: "parseEquality n expression toks pos = Ok y pos'"
  shows "spanOk toks pos y pos'"
proof -
  from r obtain x pos1 where a: "parseRelational n expression toks pos = Ok x pos1"
    and l: "equalityLoop n expression toks x pos1 = Ok y pos'"
    by (auto simp: parseEquality_def split: result.splits)
  from equalityLoop_ok [OF ord sp l parseRelational_ok [OF ord sp a]] show ?thesis .
qed

lemma logicalAndLoop_ok:
  assumes ord: "tokensOrdered toks" and sp: "exprSpec toks expression"
  shows "logicalAndLoop n expression toks x pos = Ok y pos' \<Longrightarrow> spanOk toks p0 x pos \<Longrightarrow>
         spanOk toks p0 y pos'"
proof (induction n arbitrary: x pos)
  case 0
  then show ?case by simp
next
  case (Suc n)
  show ?case
  proof (cases "pos < length toks \<and> t_value (toks ! pos) = ''and''")
    case True
    then have lt: "pos < length toks" and c: "currentToken toks pos = Some (toks ! pos)"
      and i: "currentIs toks pos (t_value (toks ! pos))"
      by (simp_all add: currentToken_def currentIs_iff)
    from Suc.prems(1) True obtain right pos1 where
      r: "parseEquality n expression toks (pos + 1) = Ok right pos1"
      and l: "logicalAndLoop n expression toks
                (LogicalExpression ''and'' x right (expr_start x) (expr_end right)) pos1
              = Ok y pos'"
      by (auto simp: c currentIs_iff nextToken_lt [OF lt] split: result.splits)
    from parseEquality_ok [OF ord sp r] have "spanOk toks (pos + 1) right pos1" .
    from spanOk_binary [OF ord Suc.prems(2) this,
        of "LogicalExpression ''and'' x right (expr_start x) (expr_end right)"]
    have "spanOk toks p0 (LogicalExpression ''and'' x right (expr_start x) (expr_end right)) pos1"
      by simp
    from Suc.IH [OF l this] show ?thesis .
  next
    case False
    with Suc.prems show ?thesis
      by (auto simp: currentToken_def currentIs_iff split: if_splits)
  qed
qed

lemma parseLogicalAnd_ok:
  assumes ord: "tokensOrdered toks" and sp: "exprSpec toks expression"
    and r: "parseLogicalAnd n expression toks pos = Ok y pos'"
  shows "spanOk toks pos y pos'"
proof -
  from r obtain x pos1 where a: "parseEquality n expression toks pos = Ok x pos1"
    and l: "logicalAndLoop n expression toks x pos1 = Ok y pos'"
    by (auto simp: parseLogicalAnd_def split: result.splits)
  from logicalAndLoop_ok [OF ord sp l parseEquality_ok [OF ord sp a]] show ?thesis .
qed

lemma logicalOrLoop_ok:
  assumes ord: "tokensOrdered toks" and sp: "exprSpec toks expression"
  shows "logicalOrLoop n expression toks x pos = Ok y pos' \<Longrightarrow> spanOk toks p0 x pos \<Longrightarrow>
         spanOk toks p0 y pos'"
proof (induction n arbitrary: x pos)
  case 0
  then show ?case by simp
next
  case (Suc n)
  show ?case
  proof (cases "pos < length toks \<and> t_value (toks ! pos) = ''or''")
    case True
    then have lt: "pos < length toks" and c: "currentToken toks pos = Some (toks ! pos)"
      and i: "currentIs toks pos (t_value (toks ! pos))"
      by (simp_all add: currentToken_def currentIs_iff)
    from Suc.prems(1) True obtain right pos1 where
      r: "parseLogicalAnd n expression toks (pos + 1) = Ok right pos1"
      and l: "logicalOrLoop n expression toks
                (LogicalExpression ''or'' x right (expr_start x) (expr_end right)) pos1
              = Ok y pos'"
      by (auto simp: c currentIs_iff nextToken_lt [OF lt] split: result.splits)
    from parseLogicalAnd_ok [OF ord sp r] have "spanOk toks (pos + 1) right pos1" .
    from spanOk_binary [OF ord Suc.prems(2) this,
        of "LogicalExpression ''or'' x right (expr_start x) (expr_end right)"]
    have "spanOk toks p0 (LogicalExpression ''or'' x right (expr_start x) (expr_end right)) pos1"
      by simp
    from Suc.IH [OF l this] show ?thesis .
  next
    case False
    with Suc.prems show ?thesis
      by (auto simp: currentToken_def currentIs_iff split: if_splits)
  qed
qed

lemma parseLogicalOr_ok:
  assumes ord: "tokensOrdered toks" and sp: "exprSpec toks expression"
    and r: "parseLogicalOr n expression toks pos = Ok y pos'"
  shows "spanOk toks pos y pos'"
proof -
  from r obtain x pos1 where a: "parseLogicalAnd n expression toks pos = Ok x pos1"
    and l: "logicalOrLoop n expression toks x pos1 = Ok y pos'"
    by (auto simp: parseLogicalOr_def split: result.splits)
  from logicalOrLoop_ok [OF ord sp l parseLogicalAnd_ok [OF ord sp a]] show ?thesis .
qed

text \<open>Every expression that \<^verbatim>\<open>parseExpression\<close> returns lies within the tokens it consumed.\<close>

lemma parseExpression_spec:
  assumes ord: "tokensOrdered toks"
  shows "exprSpec toks (parseExpression n toks)"
proof (induction n)
  case 0
  show ?case by (simp add: exprSpec_def)
next
  case (Suc n)
  show ?case
    unfolding exprSpec_def
  proof (intro allI impI)
    fix pos x pos'
    assume "parseExpression (Suc n) toks pos = Ok x pos'"
    then have "parseLogicalOr n (parseExpression n toks) toks pos = Ok x pos'" by simp
    from parseLogicalOr_ok [OF ord Suc this] show "spanOk toks pos x pos'" .
  qed
qed

lemma parseExpression_ok:
  "tokensOrdered toks \<Longrightarrow> parseExpression n toks pos = Ok x pos' \<Longrightarrow> spanOk toks pos x pos'"
  using parseExpression_spec [of toks n] by (simp add: exprSpec_def)

section \<open>Properties of the parser: the position never moves back\<close>

lemma resultFrom_simps [simp]:
  "resultFrom p (Ok x q) \<longleftrightarrow> p \<le> q"
  "resultFrom p (Throw m q) \<longleftrightarrow> p \<le> q"
  "resultFrom p Timeout"
  by (simp_all add: resultFrom_def)

lemma resultFrom_le: "resultFrom p r \<Longrightarrow> p0 \<le> p \<Longrightarrow> resultFrom p0 r"
  by (cases r) simp_all

lemma nextToken_ge: "pos \<le> nextToken toks pos"
  by (simp add: nextToken_def)

lemma le_nextToken: "a \<le> b \<Longrightarrow> a \<le> nextToken toks b"
  by (simp add: nextToken_def)

lemma expressionList_from:
  assumes e: "\<And>p. resultFrom p (expression p)"
  shows "resultFrom pos (expressionList n expression toks acc pos)"
proof (induction n arbitrary: acc pos)
  case 0
  show ?case by simp
next
  case (Suc n)
  show ?case
  proof (cases "expression pos")
    case (Ok x pos1)
    with e [of pos] have a: "pos \<le> pos1" by simp
    have b: "pos \<le> nextToken toks pos1"
      using a nextToken_ge [of pos1 toks] by simp
    have "resultFrom pos (expressionList n expression toks (acc @ [x]) (nextToken toks pos1))"
      using Suc b by (rule resultFrom_le)
    with Ok a show ?thesis by simp
  next
    case (Throw m q)
    with e [of pos] show ?thesis by simp
  next
    case Timeout
    then show ?thesis by simp
  qed
qed

lemma parseCallExpression_from:
  assumes e: "\<And>p. resultFrom p (expression p)"
  shows "resultFrom pos (parseCallExpression n expression toks callee pos)"
  using expressionList_from [OF e, of "nextToken toks pos" n toks "[]"]
    nextToken_ge [of pos toks]
  by (auto simp: parseCallExpression_def Let_def intro: le_nextToken
           split: result.splits option.splits)

lemma parseMemberExpression_from:
  assumes e: "\<And>p. resultFrom p (expression p)"
  shows "resultFrom pos (parseMemberExpression n expression toks obj pos)"
proof -
  have a: "pos \<le> nextToken toks (nextToken toks pos)"
    using nextToken_ge [of pos toks] nextToken_ge [of "nextToken toks pos" toks] by simp
  have "resultFrom pos (parseCallExpression n expression toks c
      (nextToken toks (nextToken toks pos)))" for c
    using parseCallExpression_from [OF e, of "nextToken toks (nextToken toks pos)" n toks c] a
    by (rule resultFrom_le)
  then show ?thesis
    using a nextToken_ge [of pos toks]
    by (auto simp: parseMemberExpression_def Let_def split: option.splits)
qed

lemma parseArrayExpression_from:
  assumes e: "\<And>p. resultFrom p (expression p)"
  shows "resultFrom pos (parseArrayExpression n expression toks pos)"
  using expressionList_from [OF e, of "nextToken toks pos" n toks "[]"]
    nextToken_ge [of pos toks]
  by (auto simp: parseArrayExpression_def Let_def intro: le_nextToken
           split: result.splits option.splits)

lemma parseObjectProperty_from:
  assumes e: "\<And>p. resultFrom p (expression p)"
  shows "resultFrom pos (parseObjectProperty expression toks pos)"
proof -
  have a: "pos \<le> nextToken toks (nextToken toks pos)"
    using nextToken_ge [of pos toks] nextToken_ge [of "nextToken toks pos" toks] by simp
  have "resultFrom pos (expression (nextToken toks (nextToken toks pos)))"
    using e a by (rule resultFrom_le)
  then show ?thesis
    using nextToken_ge [of pos toks]
    by (auto simp: parseObjectProperty_def Let_def split: option.splits result.splits)
qed

lemma propertyList_from:
  assumes e: "\<And>p. resultFrom p (expression p)"
  shows "resultFrom pos (propertyList n expression toks acc pos)"
proof (induction n arbitrary: acc pos)
  case 0
  show ?case by simp
next
  case (Suc n)
  note p = parseObjectProperty_from [OF e, of pos toks]
  show ?case
  proof (cases "parseObjectProperty expression toks pos")
    case (Ok x pos1)
    with p have a: "pos \<le> pos1" by simp
    have b: "pos \<le> nextToken toks pos1"
      using a nextToken_ge [of pos1 toks] by simp
    have "resultFrom pos (propertyList n expression toks (acc @ [x]) (nextToken toks pos1))"
      using Suc b by (rule resultFrom_le)
    with Ok a show ?thesis by simp
  next
    case (Throw m q)
    with p show ?thesis by simp
  next
    case Timeout
    then show ?thesis by simp
  qed
qed

lemma parseObjectExpression_from:
  assumes e: "\<And>p. resultFrom p (expression p)"
  shows "resultFrom pos (parseObjectExpression n expression toks pos)"
  using propertyList_from [OF e, of "nextToken toks pos" n toks "[]"]
    nextToken_ge [of pos toks]
  by (auto simp: parseObjectExpression_def Let_def intro: le_nextToken
           split: result.splits option.splits)

lemma parsePrimary_from:
  assumes e: "\<And>p. resultFrom p (expression p)"
  shows "resultFrom pos (parsePrimary n expression toks pos)"
proof -
  note g = nextToken_ge [of pos toks]
  have c: "resultFrom pos (parseCallExpression n expression toks i (nextToken toks pos))" for i
    using parseCallExpression_from [OF e] g by (rule resultFrom_le)
  have m: "resultFrom pos (parseMemberExpression n expression toks i (nextToken toks pos))" for i
    using parseMemberExpression_from [OF e] g by (rule resultFrom_le)
  have p: "resultFrom pos (expression (nextToken toks pos))"
    using e g by (rule resultFrom_le)
  have p': "resultFrom pos
      (case expression (nextToken toks pos) of
         Ok x pos1 \<Rightarrow>
           if \<not> currentIs toks pos1 '')'' then
             Throw (atPosition toks pos1 (''Expected '' @ quoted '')'')) pos1
           else Ok x (nextToken toks pos1)
       | Throw m p \<Rightarrow> Throw m p
       | Timeout \<Rightarrow> Timeout)"
    using p by (auto split: result.splits intro: le_trans nextToken_ge)
  show ?thesis
    unfolding parsePrimary_def Let_def
    using c m p' g parseArrayExpression_from [OF e, of pos n toks]
      parseObjectExpression_from [OF e, of pos n toks]
    by (simp split: option.split)
qed

lemma parseUnary_from:
  assumes e: "\<And>p. resultFrom p (expression p)"
  shows "resultFrom pos (parseUnary n expression toks pos)"
proof (induction n arbitrary: pos)
  case 0
  show ?case by simp
next
  case (Suc n)
  have "resultFrom pos (parseUnary n expression toks (nextToken toks pos))"
    using Suc nextToken_ge by (rule resultFrom_le)
  then show ?case
    using parsePrimary_from [OF e, of pos n toks]
    by (auto split: option.splits result.splits)
qed

lemma multiplicativeLoop_from:
  assumes e: "\<And>p. resultFrom p (expression p)"
  shows "resultFrom pos (multiplicativeLoop n expression toks x pos)"
proof (induction n arbitrary: x pos)
  case 0
  show ?case by simp
next
  case (Suc n)
  have s: "resultFrom pos (parseUnary n expression toks (nextToken toks pos))"
    using parseUnary_from [OF e] nextToken_ge by (rule resultFrom_le)
  have "resultFrom pos
      (case parseUnary n expression toks (nextToken toks pos) of
         Ok right pos1 \<Rightarrow> multiplicativeLoop n expression toks (mk right) pos1
       | Throw m p \<Rightarrow> Throw m p
       | Timeout \<Rightarrow> Timeout)" for mk
  proof (cases "parseUnary n expression toks (nextToken toks pos)")
    case (Ok right pos1)
    with s have "pos \<le> pos1" by simp
    with Suc [where x = "mk right" and pos = pos1] Ok show ?thesis by (simp add: resultFrom_le)
  next
    case (Throw m q)
    with s show ?thesis by simp
  next
    case Timeout
    then show ?thesis by simp
  qed
  then show ?case by (simp add: currentIs_def split: option.split)
qed

lemma parseMultiplicative_from:
  assumes e: "\<And>p. resultFrom p (expression p)"
  shows "resultFrom pos (parseMultiplicative n expression toks pos)"
proof (cases "parseUnary n expression toks pos")
  case (Ok x pos1)
  with parseUnary_from [OF e, of pos n toks] have "pos \<le> pos1" by simp
  with multiplicativeLoop_from [OF e, of pos1 n toks x] Ok show ?thesis
    by (simp add: parseMultiplicative_def resultFrom_le)
next
  case (Throw m q)
  with parseUnary_from [OF e, of pos n toks] show ?thesis by (simp add: parseMultiplicative_def)
next
  case Timeout
  then show ?thesis by (simp add: parseMultiplicative_def)
qed

lemma additiveLoop_from:
  assumes e: "\<And>p. resultFrom p (expression p)"
  shows "resultFrom pos (additiveLoop n expression toks x pos)"
proof (induction n arbitrary: x pos)
  case 0
  show ?case by simp
next
  case (Suc n)
  have s: "resultFrom pos (parseMultiplicative n expression toks (nextToken toks pos))"
    using parseMultiplicative_from [OF e] nextToken_ge by (rule resultFrom_le)
  have "resultFrom pos
      (case parseMultiplicative n expression toks (nextToken toks pos) of
         Ok right pos1 \<Rightarrow> additiveLoop n expression toks (mk right) pos1
       | Throw m p \<Rightarrow> Throw m p
       | Timeout \<Rightarrow> Timeout)" for mk
  proof (cases "parseMultiplicative n expression toks (nextToken toks pos)")
    case (Ok right pos1)
    with s have "pos \<le> pos1" by simp
    with Suc [where x = "mk right" and pos = pos1] Ok show ?thesis by (simp add: resultFrom_le)
  next
    case (Throw m q)
    with s show ?thesis by simp
  next
    case Timeout
    then show ?thesis by simp
  qed
  then show ?case by (simp add: currentIs_def split: option.split)
qed

lemma parseAdditive_from:
  assumes e: "\<And>p. resultFrom p (expression p)"
  shows "resultFrom pos (parseAdditive n expression toks pos)"
proof (cases "parseMultiplicative n expression toks pos")
  case (Ok x pos1)
  with parseMultiplicative_from [OF e, of pos n toks] have "pos \<le> pos1" by simp
  with additiveLoop_from [OF e, of pos1 n toks x] Ok show ?thesis
    by (simp add: parseAdditive_def resultFrom_le)
next
  case (Throw m q)
  with parseMultiplicative_from [OF e, of pos n toks] show ?thesis by (simp add: parseAdditive_def)
next
  case Timeout
  then show ?thesis by (simp add: parseAdditive_def)
qed

lemma relationalLoop_from:
  assumes e: "\<And>p. resultFrom p (expression p)"
  shows "resultFrom pos (relationalLoop n expression toks x pos)"
proof (induction n arbitrary: x pos)
  case 0
  show ?case by simp
next
  case (Suc n)
  have s: "resultFrom pos (parseAdditive n expression toks (nextToken toks pos))"
    using parseAdditive_from [OF e] nextToken_ge by (rule resultFrom_le)
  have "resultFrom pos
      (case parseAdditive n expression toks (nextToken toks pos) of
         Ok right pos1 \<Rightarrow> relationalLoop n expression toks (mk right) pos1
       | Throw m p \<Rightarrow> Throw m p
       | Timeout \<Rightarrow> Timeout)" for mk
  proof (cases "parseAdditive n expression toks (nextToken toks pos)")
    case (Ok right pos1)
    with s have "pos \<le> pos1" by simp
    with Suc [where x = "mk right" and pos = pos1] Ok show ?thesis by (simp add: resultFrom_le)
  next
    case (Throw m q)
    with s show ?thesis by simp
  next
    case Timeout
    then show ?thesis by simp
  qed
  then show ?case by (simp add: currentIs_def split: option.split)
qed

lemma parseRelational_from:
  assumes e: "\<And>p. resultFrom p (expression p)"
  shows "resultFrom pos (parseRelational n expression toks pos)"
proof (cases "parseAdditive n expression toks pos")
  case (Ok x pos1)
  with parseAdditive_from [OF e, of pos n toks] have "pos \<le> pos1" by simp
  with relationalLoop_from [OF e, of pos1 n toks x] Ok show ?thesis
    by (simp add: parseRelational_def resultFrom_le)
next
  case (Throw m q)
  with parseAdditive_from [OF e, of pos n toks] show ?thesis by (simp add: parseRelational_def)
next
  case Timeout
  then show ?thesis by (simp add: parseRelational_def)
qed

lemma equalityLoop_from:
  assumes e: "\<And>p. resultFrom p (expression p)"
  shows "resultFrom pos (equalityLoop n expression toks x pos)"
proof (induction n arbitrary: x pos)
  case 0
  show ?case by simp
next
  case (Suc n)
  have s: "resultFrom pos (parseRelational n expression toks (nextToken toks pos))"
    using parseRelational_from [OF e] nextToken_ge by (rule resultFrom_le)
  have "resultFrom pos
      (case parseRelational n expression toks (nextToken toks pos) of
         Ok right pos1 \<Rightarrow> equalityLoop n expression toks (mk right) pos1
       | Throw m p \<Rightarrow> Throw m p
       | Timeout \<Rightarrow> Timeout)" for mk
  proof (cases "parseRelational n expression toks (nextToken toks pos)")
    case (Ok right pos1)
    with s have "pos \<le> pos1" by simp
    with Suc [where x = "mk right" and pos = pos1] Ok show ?thesis by (simp add: resultFrom_le)
  next
    case (Throw m q)
    with s show ?thesis by simp
  next
    case Timeout
    then show ?thesis by simp
  qed
  then show ?case by (simp add: currentIs_def split: option.split)
qed

lemma parseEquality_from:
  assumes e: "\<And>p. resultFrom p (expression p)"
  shows "resultFrom pos (parseEquality n expression toks pos)"
proof (cases "parseRelational n expression toks pos")
  case (Ok x pos1)
  with parseRelational_from [OF e, of pos n toks] have "pos \<le> pos1" by simp
  with equalityLoop_from [OF e, of pos1 n toks x] Ok show ?thesis
    by (simp add: parseEquality_def resultFrom_le)
next
  case (Throw m q)
  with parseRelational_from [OF e, of pos n toks] show ?thesis by (simp add: parseEquality_def)
next
  case Timeout
  then show ?thesis by (simp add: parseEquality_def)
qed

lemma logicalAndLoop_from:
  assumes e: "\<And>p. resultFrom p (expression p)"
  shows "resultFrom pos (logicalAndLoop n expression toks x pos)"
proof (induction n arbitrary: x pos)
  case 0
  show ?case by simp
next
  case (Suc n)
  have s: "resultFrom pos (parseEquality n expression toks (nextToken toks pos))"
    using parseEquality_from [OF e] nextToken_ge by (rule resultFrom_le)
  have "resultFrom pos
      (case parseEquality n expression toks (nextToken toks pos) of
         Ok right pos1 \<Rightarrow> logicalAndLoop n expression toks (mk right) pos1
       | Throw m p \<Rightarrow> Throw m p
       | Timeout \<Rightarrow> Timeout)" for mk
  proof (cases "parseEquality n expression toks (nextToken toks pos)")
    case (Ok right pos1)
    with s have "pos \<le> pos1" by simp
    with Suc [where x = "mk right" and pos = pos1] Ok show ?thesis by (simp add: resultFrom_le)
  next
    case (Throw m q)
    with s show ?thesis by simp
  next
    case Timeout
    then show ?thesis by simp
  qed
  then show ?case by (simp add: currentIs_def split: option.split)
qed

lemma parseLogicalAnd_from:
  assumes e: "\<And>p. resultFrom p (expression p)"
  shows "resultFrom pos (parseLogicalAnd n expression toks pos)"
proof (cases "parseEquality n expression toks pos")
  case (Ok x pos1)
  with parseEquality_from [OF e, of pos n toks] have "pos \<le> pos1" by simp
  with logicalAndLoop_from [OF e, of pos1 n toks x] Ok show ?thesis
    by (simp add: parseLogicalAnd_def resultFrom_le)
next
  case (Throw m q)
  with parseEquality_from [OF e, of pos n toks] show ?thesis by (simp add: parseLogicalAnd_def)
next
  case Timeout
  then show ?thesis by (simp add: parseLogicalAnd_def)
qed

lemma logicalOrLoop_from:
  assumes e: "\<And>p. resultFrom p (expression p)"
  shows "resultFrom pos (logicalOrLoop n expression toks x pos)"
proof (induction n arbitrary: x pos)
  case 0
  show ?case by simp
next
  case (Suc n)
  have s: "resultFrom pos (parseLogicalAnd n expression toks (nextToken toks pos))"
    using parseLogicalAnd_from [OF e] nextToken_ge by (rule resultFrom_le)
  have "resultFrom pos
      (case parseLogicalAnd n expression toks (nextToken toks pos) of
         Ok right pos1 \<Rightarrow> logicalOrLoop n expression toks (mk right) pos1
       | Throw m p \<Rightarrow> Throw m p
       | Timeout \<Rightarrow> Timeout)" for mk
  proof (cases "parseLogicalAnd n expression toks (nextToken toks pos)")
    case (Ok right pos1)
    with s have "pos \<le> pos1" by simp
    with Suc [where x = "mk right" and pos = pos1] Ok show ?thesis by (simp add: resultFrom_le)
  next
    case (Throw m q)
    with s show ?thesis by simp
  next
    case Timeout
    then show ?thesis by simp
  qed
  then show ?case by (simp add: currentIs_def split: option.split)
qed

lemma parseLogicalOr_from:
  assumes e: "\<And>p. resultFrom p (expression p)"
  shows "resultFrom pos (parseLogicalOr n expression toks pos)"
proof (cases "parseLogicalAnd n expression toks pos")
  case (Ok x pos1)
  with parseLogicalAnd_from [OF e, of pos n toks] have "pos \<le> pos1" by simp
  with logicalOrLoop_from [OF e, of pos1 n toks x] Ok show ?thesis
    by (simp add: parseLogicalOr_def resultFrom_le)
next
  case (Throw m q)
  with parseLogicalAnd_from [OF e, of pos n toks] show ?thesis by (simp add: parseLogicalOr_def)
next
  case Timeout
  then show ?thesis by (simp add: parseLogicalOr_def)
qed

lemma parseExpression_from: "resultFrom pos (parseExpression n toks pos)"
proof (induction n arbitrary: pos)
  case 0
  show ?case by simp
next
  case (Suc n)
  show ?case using parseLogicalOr_from [of "parseExpression n toks", OF Suc] by simp
qed

section \<open>Properties of the parser: a statement leaves a later state\<close>

lemma stateFrom_simps [simp]:
  "stateFrom st (Ok x s) \<longleftrightarrow> stepOk st s"
  "stateFrom st (Throw m s) \<longleftrightarrow> stepOk st s"
  "stateFrom st Timeout"
  by (simp_all add: stateFrom_def)

lemma stateFrom_map:
  "stateFrom st (case r of Ok x s \<Rightarrow> Ok (f x s) s | Throw m s \<Rightarrow> Throw m s
                 | Timeout \<Rightarrow> Timeout) \<longleftrightarrow> stateFrom st r"
  by (cases r) simp_all

lemma stateFrom_OkD: "stateFrom st r \<Longrightarrow> r = Ok x s \<Longrightarrow> stepOk st s"
  by simp

lemma stateFrom_ThrowD: "stateFrom st r \<Longrightarrow> r = Throw m s \<Longrightarrow> stepOk st s"
  by simp

lemma stepOk_refl: "stepOk st st"
  by (simp add: stepOk_def)

lemma stepOk_trans: "stepOk a b \<Longrightarrow> stepOk b c \<Longrightarrow> stepOk a c"
  by (simp add: stepOk_def)

lemma stepOk_advance: "stepOk st (advance st)"
  by (simp add: stepOk_def advance_def nextToken_def)

lemma stepOk_addError: "stepOk st (addError message s e st)"
  by (simp add: stepOk_def addError_def)

lemma stateFrom_step: "stateFrom b r \<Longrightarrow> stepOk a b \<Longrightarrow> stateFrom a r"
  by (cases r) (auto intro: stepOk_trans)

lemma nextToken_leD: "nextToken toks a \<le> b \<Longrightarrow> a \<le> b"
  by (simp add: nextToken_def split: if_splits)

lemma parseExpressionAt_from: "stateFrom st (parseExpressionAt n st)"
  using parseExpression_from [of "p_position st" n "p_tokens st"]
  by (auto simp: parseExpressionAt_def stepOk_def split: result.splits)

lemmas parseExpressionAt_OkD = stateFrom_OkD [OF parseExpressionAt_from]
lemmas parseExpressionAt_ThrowD = stateFrom_ThrowD [OF parseExpressionAt_from]

lemma skipToNextStatement_from: "stepOk st (skipToNextStatement st)"
  by (simp add: skipToNextStatement_recovery stepOk_def recoveryPosition_ge)

lemma pushParameter_from: "stepOk (snd a) (snd (pushParameter a))"
  by (simp add: pushParameter_def stepOk_advance stepOk_refl split: option.split)

lemma parameterLoop_from: "stepOk (snd a) (snd (parameterLoop a))"
proof (induction a rule: parameterLoop.induct)
  case (1 a)
  show ?case
  proof (cases "curIs (snd a) '',''")
    case True
    have "stepOk (snd a) (snd (pushParameter (fst a, advance (snd a))))"
      using stepOk_advance [of "snd a"] pushParameter_from [of "(fst a, advance (snd a))"]
      by (auto intro: stepOk_trans)
    from stepOk_trans [OF this "1.IH" [OF True]] True show ?thesis
      by (subst parameterLoop.simps) simp
  next
    case False
    then show ?thesis by (subst parameterLoop.simps) (simp add: stepOk_refl)
  qed
qed

lemma parseVariableDeclaration_from: "stateFrom st (parseVariableDeclaration n st)"
  by (auto simp: parseVariableDeclaration_def Let_def stepOk_def advance_def addError_def
           split: option.splits result.splits
           dest!: parseExpressionAt_OkD parseExpressionAt_ThrowD nextToken_leD
           intro: le_nextToken)

lemmas parseVariableDeclaration_OkD = stateFrom_OkD [OF parseVariableDeclaration_from]
lemmas parseVariableDeclaration_ThrowD = stateFrom_ThrowD [OF parseVariableDeclaration_from]

lemma parseAssignmentExpression_from: "stateFrom st (parseAssignmentExpression n left st)"
  by (auto simp: parseAssignmentExpression_def Let_def stepOk_def advance_def addError_def
           split: option.splits result.splits
           dest!: parseExpressionAt_OkD parseExpressionAt_ThrowD nextToken_leD
           intro: le_nextToken)

lemmas parseAssignmentExpression_OkD = stateFrom_OkD [OF parseAssignmentExpression_from]
lemmas parseAssignmentExpression_ThrowD = stateFrom_ThrowD [OF parseAssignmentExpression_from]

lemma parseExpressionStatement_from: "stateFrom st (parseExpressionStatement n st)"
proof (cases "parseExpressionAt n st")
  case (Ok x st1)
  with parseExpressionAt_from [of st n] have a: "stepOk st st1" by simp
  show ?thesis
  proof (cases "isIdentifier x \<and> curIs st1 ''=''")
    case True
    have "stateFrom st (parseAssignmentExpression n x st1)"
      using parseAssignmentExpression_from a by (rule stateFrom_step)
    with Ok True show ?thesis by (simp add: parseExpressionStatement_def)
  next
    case False
    have "stepOk st (advance st1)"
      using a stepOk_advance by (rule stepOk_trans)
    moreover have "stepOk st (addError message s e st1)" for message s e
      using a stepOk_addError by (rule stepOk_trans)
    ultimately show ?thesis using Ok False
      by (auto simp: parseExpressionStatement_def Let_def)
  qed
next
  case (Throw m s)
  with parseExpressionAt_from [of st n] show ?thesis
    by (simp add: parseExpressionStatement_def)
next
  case Timeout
  then show ?thesis by (simp add: parseExpressionStatement_def)
qed

lemma parseReturnStatement_from: "stateFrom st (parseReturnStatement n st)"
  by (auto simp: parseReturnStatement_def Let_def stepOk_def advance_def addError_def
           split: option.splits result.splits if_splits
           dest!: parseExpressionAt_OkD parseExpressionAt_ThrowD nextToken_leD
           intro: le_nextToken)

lemma blockLoop_from:
  assumes s: "\<And>s. stateFrom s (statement s)"
  shows "stateFrom st (blockLoop n statement body st)"
proof (induction n arbitrary: body st)
  case 0
  show ?case by simp
next
  case (Suc n)
  show ?case
  proof (cases "statement st")
    case (Ok r st1)
    with s [of st] have "stepOk st st1" by simp
    with Suc [where body = "pushStatement body r" and st = st1]
    have "stateFrom st (blockLoop n statement (pushStatement body r) st1)"
      by (rule stateFrom_step)
    with Ok show ?thesis by (simp add: stepOk_refl)
  next
    case (Throw m s1)
    with s [of st] show ?thesis by (simp add: stepOk_refl)
  next
    case Timeout
    then show ?thesis by (simp add: stepOk_refl)
  qed
qed

lemma parseBlock_from:
  assumes s: "\<And>s. stateFrom s (statement s)"
  shows "stateFrom st (parseBlock n statement st)"
proof (cases "curIs st ''{''")
  case True
  have "stateFrom st (blockLoop n statement [] (advance st))"
    using blockLoop_from [OF s] stepOk_advance by (rule stateFrom_step)
  then show ?thesis using True
    by (auto simp: parseBlock_def split: result.splits
             intro: stepOk_trans [OF _ stepOk_advance])
next
  case False
  then show ?thesis using s [of st]
    by (auto simp: parseBlock_def split: result.splits)
qed

lemma parseBlock_after:
  assumes s: "\<And>s. stateFrom s (statement s)" and "stepOk st st1"
  shows "stateFrom st (parseBlock n statement (advance st1))"
  using parseBlock_from [OF s] stepOk_trans [OF assms(2) stepOk_advance]
  by (rule stateFrom_step)

lemma parseIfStatement_from:
  assumes s: "\<And>s. stateFrom s (statement s)"
  shows "stateFrom st (parseIfStatement n statement st)"
proof (induction n arbitrary: st)
  case 0
  show ?case by simp
next
  case (Suc n)
  note b = stateFrom_OkD [OF parseBlock_from [OF s]] stateFrom_ThrowD [OF parseBlock_from [OF s]]
  note i = stateFrom_OkD [OF Suc] stateFrom_ThrowD [OF Suc]
  show ?case
    by (auto simp: Let_def stepOk_def advance_def
             split: option.splits result.splits
             dest!: parseExpressionAt_OkD parseExpressionAt_ThrowD b i nextToken_leD
             intro: le_nextToken)
qed

lemma parseWhileStatement_from:
  assumes s: "\<And>s. stateFrom s (statement s)"
  shows "stateFrom st (parseWhileStatement n statement st)"
proof -
  note b = stateFrom_OkD [OF parseBlock_from [OF s]] stateFrom_ThrowD [OF parseBlock_from [OF s]]
  show ?thesis
    by (auto simp: parseWhileStatement_def Let_def stepOk_def advance_def
             split: option.splits result.splits
             dest!: parseExpressionAt_OkD parseExpressionAt_ThrowD b nextToken_leD
             intro: le_nextToken)
qed

lemma parseForInit_from: "stateFrom st (parseForInit n st)"
  by (auto simp: parseForInit_def stepOk_def
           split: option.splits result.splits
           dest!: parseExpressionAt_OkD parseExpressionAt_ThrowD
             parseVariableDeclaration_OkD parseVariableDeclaration_ThrowD)

lemma parseForClause_from: "stateFrom st (parseForClause n closing st)"
  by (auto simp: parseForClause_def stepOk_def
           split: option.splits result.splits
           dest!: parseExpressionAt_OkD parseExpressionAt_ThrowD)

lemma parseForStatement_from:
  assumes s: "\<And>s. stateFrom s (statement s)"
  shows "stateFrom st (parseForStatement n statement st)"
proof -
  note b = stateFrom_OkD [OF parseBlock_from [OF s]] stateFrom_ThrowD [OF parseBlock_from [OF s]]
  note i = stateFrom_OkD [OF parseForInit_from] stateFrom_ThrowD [OF parseForInit_from]
  note c = stateFrom_OkD [OF parseForClause_from] stateFrom_ThrowD [OF parseForClause_from]
  show ?thesis
    by (auto simp: parseForStatement_def Let_def stepOk_def advance_def
             split: option.splits result.splits
             dest!: b i c nextToken_leD
             intro: le_nextToken)
qed

lemma parseFunctionDeclaration_from:
  assumes s: "\<And>s. stateFrom s (statement s)"
  shows "stateFrom st (parseFunctionDeclaration n statement st)"
proof -
  note b = stateFrom_OkD [OF parseBlock_from [OF s]] stateFrom_ThrowD [OF parseBlock_from [OF s]]
  define st3 where "st3 = advance (advance (advance st))"
  define a where "a = (if cur st3 \<noteq> None \<and> \<not> curIs st3 '')''
      then parameterLoop (pushParameter ([], st3)) else ([], st3))"
  have 3: "stepOk st st3"
    unfolding st3_def by (intro stepOk_trans [OF _ stepOk_advance] stepOk_advance)
  have "stepOk st3 (snd a)"
    using parameterLoop_from [of "pushParameter ([], st3)"] pushParameter_from [of "([], st3)"]
    by (auto simp: a_def stepOk_refl intro: stepOk_trans)
  with 3 have 4: "stepOk st (snd a)" by (rule stepOk_trans)
  then have 5: "stepOk st (advance (snd a))"
    by (rule stepOk_trans [OF _ stepOk_advance])
  have "stateFrom st (parseBlock n statement (advance (snd a)))"
    using parseBlock_from [OF s] 5 by (rule stateFrom_step)
  then have k: "stateFrom st (parseBlock n statement (advance (snd a)))" .
  have 1: "stepOk st (advance st)" by (rule stepOk_advance)
  have 2: "stepOk st (advance (advance st))"
    by (intro stepOk_trans [OF _ stepOk_advance] stepOk_advance)
  show ?thesis
    unfolding parseFunctionDeclaration_def Let_def st3_def [symmetric] a_def [symmetric]
    using k 1 2 4 by (simp add: stepOk_refl stateFrom_map split: option.split)
qed

lemma parseClassDeclaration_from:
  assumes s: "\<And>s. stateFrom s (statement s)"
  shows "stateFrom st (parseClassDeclaration n statement st)"
proof -
  note b = stateFrom_OkD [OF parseBlock_from [OF s]] stateFrom_ThrowD [OF parseBlock_from [OF s]]
  show ?thesis
    by (auto simp: parseClassDeclaration_def Let_def stepOk_def advance_def
             split: option.splits result.splits
             dest!: b nextToken_leD
             intro: le_nextToken)
qed

lemma returned_from: "stateFrom st (returned r) \<longleftrightarrow> stateFrom st r"
  by (cases r) (simp_all add: returned_def)

lemma tryStatement_from:
  assumes s: "\<And>s. stateFrom s (statement s)"
  shows "stateFrom st (tryStatement n statement tok st)"
  by (simp add: tryStatement_def returned_from parseVariableDeclaration_from
        parseIfStatement_from [OF s] parseWhileStatement_from [OF s]
        parseForStatement_from [OF s] parseFunctionDeclaration_from [OF s]
        parseClassDeclaration_from [OF s] parseReturnStatement_from
        parseExpressionStatement_from skipToNextStatement_from)

lemma parseStatement_from: "stateFrom st (parseStatement n st)"
proof (induction n arbitrary: st)
  case 0
  show ?case by simp
next
  case (Suc n)
  show ?case
  proof (cases "cur st")
    case None
    then show ?thesis by (simp add: stepOk_refl)
  next
    case (Some tok)
    note t = tryStatement_from [of "parseStatement n" st n tok, OF Suc]
    show ?thesis
    proof (cases "tryStatement n (parseStatement n) tok st")
      case (Ok r st1)
      with t Some show ?thesis by simp
    next
      case (Throw message st1)
      with t have "stepOk st st1" by simp
      then have "stepOk st (skipToNextStatement (addError message (t_start tok) (t_end tok) st1))"
        by (intro stepOk_trans [OF _ skipToNextStatement_from] stepOk_trans [OF _ stepOk_addError])
      with Throw Some show ?thesis by simp
    next
      case Timeout
      with Some show ?thesis by simp
    qed
  qed
qed

lemma parseLoop_from: "stateFrom st (parseLoop n statements st)"
proof (induction n arbitrary: statements st)
  case 0
  show ?case by simp
next
  case (Suc n)
  show ?case
  proof (cases "parseStatement n st")
    case (Ok r st1)
    with parseStatement_from [of st n] have "stepOk st st1" by simp
    with Suc [where statements = "pushStatement statements r" and st = st1]
    have "stateFrom st (parseLoop n (pushStatement statements r) st1)"
      by (rule stateFrom_step)
    with Ok show ?thesis by (simp add: stepOk_refl)
  next
    case (Throw m s1)
    with parseStatement_from [of st n] show ?thesis by (simp add: stepOk_refl)
  next
    case Timeout
    then show ?thesis by (simp add: stepOk_refl)
  qed
qed

section \<open>Properties of the parser: the offsets of a statement are in order\<close>

lemma cur_Some: "cur st = Some t \<longleftrightarrow> p_position st < length (p_tokens st) \<and> t = p_tokens st ! p_position st"
  by (simp add: cur_def currentToken_Some)

lemma cur_None: "cur st = None \<longleftrightarrow> length (p_tokens st) \<le> p_position st"
  by (simp add: cur_def currentToken_None)

lemma curIs_iff:
  "curIs st v \<longleftrightarrow> p_position st < length (p_tokens st) \<and> t_value (p_tokens st ! p_position st) = v"
  by (simp add: curIs_def currentIs_iff)

lemma stepOk_tokens: "stepOk st st' \<Longrightarrow> p_tokens st' = p_tokens st"
  by (simp add: stepOk_def)

lemma stepOk_position: "stepOk st st' \<Longrightarrow> p_position st \<le> p_position st'"
  by (simp add: stepOk_def)

lemma parseExpressionAt_ok:
  assumes "tokensOrdered (p_tokens st)" and "parseExpressionAt n st = Ok x st1"
  shows "spanOk (p_tokens st) (p_position st) x (p_position st1)"
  using assms parseExpression_ok [of "p_tokens st" n "p_position st" x]
  by (auto simp: parseExpressionAt_def split: result.splits)

lemma parseExpressionAt_exprOk:
  assumes "parseExpressionAt n st = Ok x st1" and "tokensOrdered (p_tokens st)"
  shows "exprOk x \<and> p_tokens st1 = p_tokens st"
  using parseExpressionAt_ok [OF assms(2,1)] parseExpressionAt_OkD [OF assms(1)]
  by (simp add: spanOk_def stepOk_def)

text \<open>The \<^verbatim>\<open>end\<close> of a compound statement is not before the start of its first token.\<close>

lemma endOrAt_ge:
  assumes ord: "tokensOrdered (p_tokens st)" and c: "cur st = Some startToken"
    and s: "stepOk st st'"
  shows "t_start startToken \<le> endOrAt st' startToken"
proof (cases "cur st'")
  case None
  then have e: "endOrAt st' startToken = t_end startToken" by (simp add: endOrAt_def)
  from c ordered_start_end [OF ord, of "p_position st" "p_position st"] show ?thesis
    unfolding e by (simp add: cur_Some)
next
  case (Some t)
  then have e: "endOrAt st' startToken = t_end t" by (simp add: endOrAt_def)
  from Some c s ordered_start_end [OF ord, of "p_position st" "p_position st'"] show ?thesis
    unfolding e by (simp add: cur_Some stepOk_def)
qed

lemma stmtsOk_map_Some: "stmtsOk (map Some body) \<longleftrightarrow> list_all stmtOk body"
  by (induction body) simp_all

lemma stmtsOk_single: "stmtsOk [r] \<longleftrightarrow> (\<forall>x. r = Some x \<longrightarrow> stmtOk x)"
  by (cases r) simp_all

lemma list_all_pushStatement:
  "list_all P (pushStatement body r) \<longleftrightarrow> list_all P body \<and> (\<forall>x. r = Some x \<longrightarrow> P x)"
  by (cases r) (simp_all add: pushStatement_def)

lemma parseVariableDeclaration_ok:
  assumes ord: "tokensOrdered (p_tokens st)"
    and res: "parseVariableDeclaration n st = Ok node st'"
  shows "stmtOk node"
proof -
  define st1 where "st1 = advance st"
  define typed where
    "typed = (case cur st1 of None \<Rightarrow> False | Some t \<Rightarrow> isTypeKeyword (t_value t))"
  define st2 where "st2 = (if typed then advance st1 else st1)"
  define st3 where "st3 = advance st2"
  define declaredType where "declaredType = (if typed then map_option t_value (cur st1) else None)"
  have f2: "stepOk st st2"
    unfolding st2_def st1_def
    by (auto intro: stepOk_advance stepOk_trans [OF stepOk_advance stepOk_advance])
  have f3: "stepOk st st3"
    unfolding st3_def using f2 stepOk_advance by (rule stepOk_trans)
  from res obtain startToken nameToken ini st4 where
    s: "cur st = Some startToken"
    and nt: "cur st2 = Some nameToken"
    and i: "(if curIs st3 ''='' then
              (case parseExpressionAt n (advance st3) of
                 Ok x s \<Rightarrow> Ok (Some x) s
               | Throw m s \<Rightarrow> Throw m s
               | Timeout \<Rightarrow> Timeout)
            else Ok None st3) = Ok ini st4"
    and r: "(if curIs st4 '';'' then
              Ok (VariableDeclaration declaredType (t_value nameToken) ini (t_start startToken)
                    (case cur (advance st4) of Some t \<Rightarrow> t_start t
                     | None \<Rightarrow> t_end nameToken + 1)) (advance st4)
            else
              Ok (VariableDeclaration declaredType (t_value nameToken) ini (t_start startToken)
                    (t_end nameToken))
                 (addError ''Missing semicolon at end of variable declaration''
                    (t_end nameToken) (findEndOfLine (p_input st4) (t_end nameToken)) st4))
           = Ok node st'"
    unfolding parseVariableDeclaration_def Let_def st1_def [symmetric] typed_def [symmetric]
      st2_def [symmetric] st3_def [symmetric] declaredType_def [symmetric]
    by (auto split: option.splits if_splits result.splits)
  have i4: "optExprOk ini \<and> stepOk st3 st4"
  proof (cases "curIs st3 ''=''")
    case True
    with i obtain x where x: "parseExpressionAt n (advance st3) = Ok x st4" and "ini = Some x"
      by (auto split: result.splits)
    moreover have "tokensOrdered (p_tokens (advance st3))"
      using ord f3 by (simp add: advance_def stepOk_def)
    ultimately show ?thesis
      using parseExpressionAt_exprOk [of n "advance st3" x st4]
        stepOk_trans [OF stepOk_advance parseExpressionAt_OkD [OF x]]
      by simp
  next
    case False
    with i show ?thesis by (simp add: stepOk_refl)
  qed
  have f4: "stepOk st st4" using f3 i4 by (blast intro: stepOk_trans)
  have n: "t_start startToken \<le> t_end nameToken"
    using s nt f2 ordered_start_end [OF ord, of "p_position st" "p_position st2"]
    by (simp add: cur_Some stepOk_def)
  show ?thesis
  proof (cases "curIs st4 '';''")
    case True
    have "t_start startToken \<le> t_start t" if "cur (advance st4) = Some t" for t
      using that s f4 stepOk_advance [of st4]
        ordered_start_start [OF ord, of "p_position st" "p_position (advance st4)"]
      by (simp add: cur_Some stepOk_def)
    with True r n i4 show ?thesis by (auto split: option.splits)
  next
    case False
    with r n i4 show ?thesis by auto
  qed
qed

text \<open>
  An assignment, whose left side was parsed up to the position of the \<open>=\<close>.
\<close>

lemma parseAssignmentExpression_ok:
  assumes ord: "tokensOrdered (p_tokens st)"
    and left: "spanOk (p_tokens st) p0 left (p_position st)"
    and res: "parseAssignmentExpression n left st = Ok node st'"
  shows "stmtOk node"
proof -
  from res have eq: "curIs st ''=''"
    by (auto simp: parseAssignmentExpression_def split: if_splits)
  from res obtain right st1 where
    x: "parseExpressionAt n (advance st) = Ok right st1"
    by (auto simp: parseAssignmentExpression_def split: if_splits result.splits)
  from eq have a: "p_position (advance st) = p_position st + 1" "p_tokens (advance st) = p_tokens st"
    by (simp_all add: curIs_iff advance_def nextToken_def)
  have sp: "spanOk (p_tokens st) (p_position st + 1) right (p_position st1)"
    using parseExpressionAt_ok [of "advance st" n right st1] ord x a by simp
  have t1: "p_tokens st1 = p_tokens st"
    using parseExpressionAt_OkD [OF x] a by (simp add: stepOk_def)
  from sp have q: "p_position st + 1 < p_position st1" "p_position st1 \<le> length (p_tokens st)"
    by (simp_all add: spanOk_def)
  have l: "expr_start left \<le> expr_end left" "exprOk left"
    using left by (simp_all add: spanOk_def exprOk_offsets)
  have "expr_end left \<le> t_start (p_tokens st ! (p_position st + 1))"
    using spanOk_before [OF ord left, of "p_position st + 1"] q by simp
  moreover have "t_start (p_tokens st ! (p_position st + 1)) \<le> expr_start right"
    using sp by (simp add: spanOk_def)
  moreover have r: "expr_start right \<le> expr_end right" "exprOk right"
    using sp by (simp_all add: spanOk_def exprOk_offsets)
  ultimately have m: "expr_start left \<le> expr_end right" using l by simp
  show ?thesis
  proof (cases "curIs st1 '';''")
    case True
    have "expr_start left \<le> t_start t" if "cur (advance st1) = Some t" for t
    proof -
      from that have "p_position (advance st1) < length (p_tokens st)"
        and "t = p_tokens st ! p_position (advance st1)"
        and "p_position st1 \<le> p_position (advance st1)"
        using t1 by (simp_all add: cur_Some advance_def nextToken_ge)
      with spanOk_before [OF ord sp, of "p_position (advance st1)"] m r show ?thesis by simp
    qed
    with True res x l r m show ?thesis
      by (auto simp: parseAssignmentExpression_def Let_def split: if_splits option.splits)
  next
    case False
    with res x l r m show ?thesis
      by (auto simp: parseAssignmentExpression_def Let_def split: if_splits)
  qed
qed

lemma parseExpressionStatement_ok:
  assumes ord: "tokensOrdered (p_tokens st)"
    and res: "parseExpressionStatement n st = Ok node st'"
  shows "stmtOk node"
proof -
  from res obtain x st1 where x: "parseExpressionAt n st = Ok x st1"
    by (auto simp: parseExpressionStatement_def split: result.splits)
  note sp = parseExpressionAt_ok [OF ord x]
  have t1: "p_tokens st1 = p_tokens st"
    using parseExpressionAt_OkD [OF x] by (simp add: stepOk_def)
  have l: "expr_start x \<le> expr_end x" "exprOk x"
    using sp by (simp_all add: spanOk_def exprOk_offsets)
  show ?thesis
  proof (cases "isIdentifier x \<and> curIs st1 ''=''")
    case True
    with res x have "parseAssignmentExpression n x st1 = Ok node st'"
      by (simp add: parseExpressionStatement_def)
    with parseAssignmentExpression_ok [of st1 "p_position st" x n node st'] ord sp t1
    show ?thesis by simp
  next
    case na: False
    show ?thesis
    proof (cases "curIs st1 '';''")
      case True
      have "expr_start x \<le> t_start t" if "cur (advance st1) = Some t" for t
      proof -
        from that have "p_position (advance st1) < length (p_tokens st)"
          and "t = p_tokens st ! p_position (advance st1)"
          and "p_position st1 \<le> p_position (advance st1)"
          using t1 by (simp_all add: cur_Some advance_def nextToken_ge)
        with spanOk_before [OF ord sp, of "p_position (advance st1)"] l show ?thesis by simp
      qed
      with True na res x l show ?thesis
        by (auto simp: parseExpressionStatement_def Let_def split: if_splits option.splits)
    next
      case False
      with na res x l show ?thesis
        by (auto simp: parseExpressionStatement_def Let_def split: if_splits)
    qed
  qed
qed

lemma parseReturnStatement_ok:
  assumes ord: "tokensOrdered (p_tokens st)"
    and res: "parseReturnStatement n st = Ok node st'"
  shows "stmtOk node"
proof -
  from res obtain startToken where s: "cur st = Some startToken"
    by (auto simp: parseReturnStatement_def split: option.splits)
  then have a: "p_position (advance st) = p_position st + 1" "p_tokens (advance st) = p_tokens st"
    by (simp_all add: cur_Some advance_def nextToken_def)
  have se: "t_start startToken \<le> t_end startToken"
    using s ordered_start_end [OF ord, of "p_position st" "p_position st"] by (simp add: cur_Some)
  have "t_start startToken \<le> expr_end x \<and> exprOk x"
    if "parseExpressionAt n (advance st) = Ok x st2" for x st2
  proof -
    have sp: "spanOk (p_tokens st) (p_position st + 1) x (p_position st2)"
      using parseExpressionAt_ok [of "advance st" n x st2] ord that a by simp
    from spanOk_start [OF ord sp, of "p_position st"] s sp show ?thesis
      using exprOk_offsets [of x] by (simp add: cur_Some spanOk_def)
  qed
  with res s se show ?thesis
    by (auto simp: parseReturnStatement_def Let_def split: if_splits result.splits)
qed

text \<open>
  The statement methods that reach \<^verbatim>\<open>parseStatement\<close> again, given that what it
  returns has its offsets in order.
\<close>

lemma blockLoop_ok:
  assumes fr: "\<And>s. stateFrom s (statement s)"
    and ok: "\<forall>s x s'. tokensOrdered (p_tokens s) \<longrightarrow> statement s = Ok (Some x) s' \<longrightarrow> stmtOk x"
  shows "tokensOrdered (p_tokens st) \<Longrightarrow> list_all stmtOk body \<Longrightarrow>
         blockLoop n statement body st = Ok result st' \<Longrightarrow> list_all stmtOk result"
proof (induction n arbitrary: body st)
  case 0
  then show ?case by simp
next
  case (Suc n)
  show ?case
  proof (cases "p_position st < length (p_tokens st) \<and> \<not> curIs st ''}''")
    case True
    with Suc.prems(3) obtain r st1 where
      s: "statement st = Ok r st1"
      and l: "blockLoop n statement (pushStatement body r) st1 = Ok result st'"
      by (auto split: result.splits)
    from fr [of st] s have "p_tokens st1 = p_tokens st" by (simp add: stepOk_def)
    with Suc.prems(1) have o: "tokensOrdered (p_tokens st1)" by simp
    have "list_all stmtOk (pushStatement body r)"
      using Suc.prems(1,2) ok [rule_format, of st _ st1] s by (simp add: list_all_pushStatement)
    from Suc.IH [OF o this l] show ?thesis .
  next
    case False
    with Suc.prems(2,3) show ?thesis by auto
  qed
qed

lemma parseBlock_ok:
  assumes fr: "\<And>s. stateFrom s (statement s)"
    and ok: "\<forall>s x s'. tokensOrdered (p_tokens s) \<longrightarrow> statement s = Ok (Some x) s' \<longrightarrow> stmtOk x"
    and res: "parseBlock n statement st = Ok b st'"
    and ord: "tokensOrdered (p_tokens st)"
  shows "stmtOk b \<and> p_tokens st' = p_tokens st"
proof -
  have t: "p_tokens st' = p_tokens st"
    using parseBlock_from [OF fr, of st n] res by (simp add: stepOk_def)
  have "stmtOk b"
  proof (cases "curIs st ''{''")
    case True
    with res obtain body st1 where
      l: "blockLoop n statement [] (advance st) = Ok body st1"
      and b: "b = BlockStatement (map Some body)"
      by (auto simp: parseBlock_def split: result.splits)
    have "tokensOrdered (p_tokens (advance st))" using ord by (simp add: advance_def)
    from blockLoop_ok [OF fr ok this _ l] b show ?thesis
      by (simp add: stmtsOk_map_Some)
  next
    case False
    with res obtain r st1 where s: "statement st = Ok r st1" and b: "b = BlockStatement [r]"
      by (auto simp: parseBlock_def split: result.splits)
    with ok [rule_format, OF ord, of _ st1] show ?thesis by (simp add: stmtsOk_single)
  qed
  with t show ?thesis by simp
qed

lemma parseIfStatement_ok:
  assumes fr: "\<And>s. stateFrom s (statement s)"
    and ok: "\<forall>s x s'. tokensOrdered (p_tokens s) \<longrightarrow> statement s = Ok (Some x) s' \<longrightarrow> stmtOk x"
  shows "tokensOrdered (p_tokens st) \<Longrightarrow> parseIfStatement n statement st = Ok node st' \<Longrightarrow>
         stmtOk node"
proof (induction n arbitrary: st node st')
  case 0
  then show ?case by simp
next
  case (Suc n)
  note ord = Suc.prems(1) and res = Suc.prems(2)
  from parseIfStatement_from [OF fr, of st "Suc n"] res have w: "stepOk st st'"
    by (simp del: parseIfStatement.simps)
  have e: "t_start t \<le> endOrAt st' t" if "cur st = Some t" for t
    using endOrAt_ge [OF ord that w] .
  note b = parseBlock_ok [OF fr ok]
  have i: "stmtOk x" if "parseIfStatement n statement s = Ok x s'" "tokensOrdered (p_tokens s)"
    for s x s'
    using Suc.IH [OF that(2,1)] .
  from res e show ?case
    by (auto simp: Let_def advance_def
             split: option.splits result.splits if_splits
             dest!: parseExpressionAt_exprOk b i
             intro: ord)
qed

lemma parseWhileStatement_ok:
  assumes fr: "\<And>s. stateFrom s (statement s)"
    and ok: "\<forall>s x s'. tokensOrdered (p_tokens s) \<longrightarrow> statement s = Ok (Some x) s' \<longrightarrow> stmtOk x"
    and ord: "tokensOrdered (p_tokens st)"
    and res: "parseWhileStatement n statement st = Ok node st'"
  shows "stmtOk node"
proof -
  from parseWhileStatement_from [OF fr, of st n] res have w: "stepOk st st'" by simp
  have e: "t_start t \<le> endOrAt st' t" if "cur st = Some t" for t
    using endOrAt_ge [OF ord that w] .
  note b = parseBlock_ok [OF fr ok]
  from res e show ?thesis
    by (auto simp: parseWhileStatement_def Let_def advance_def
             split: option.splits result.splits if_splits
             dest!: parseExpressionAt_exprOk b
             intro: ord)
qed

lemma parseForInit_ok:
  assumes "parseForInit n st = Ok ini st1" and "tokensOrdered (p_tokens st)"
  shows "(case ini of None \<Rightarrow> True | Some (Inl d) \<Rightarrow> stmtOk d | Some (Inr x) \<Rightarrow> exprOk x)
         \<and> p_tokens st1 = p_tokens st"
proof -
  have "p_tokens st1 = p_tokens st"
    using parseForInit_from [of st n] assms(1) by (simp add: stepOk_def)
  moreover have "case ini of None \<Rightarrow> True | Some (Inl d) \<Rightarrow> stmtOk d | Some (Inr x) \<Rightarrow> exprOk x"
    using assms parseVariableDeclaration_ok [OF assms(2), of n]
      parseExpressionAt_exprOk [of n st _ _]
    by (auto simp: parseForInit_def split: option.splits result.splits if_splits)
  ultimately show ?thesis by simp
qed

lemma parseForClause_ok:
  assumes "parseForClause n closing st = Ok x st1" and "tokensOrdered (p_tokens st)"
  shows "optExprOk x \<and> p_tokens st1 = p_tokens st"
proof -
  have "p_tokens st1 = p_tokens st"
    using parseForClause_from [of st n closing] assms(1) by (simp add: stepOk_def)
  moreover have "optExprOk x"
    using assms parseExpressionAt_exprOk [of n st _ _]
    by (auto simp: parseForClause_def split: option.splits result.splits if_splits)
  ultimately show ?thesis by simp
qed

lemma stmtOk_ForStatement:
  "stmtOk (ForStatement ini test update body s e) \<longleftrightarrow>
     s \<le> e \<and> (case ini of None \<Rightarrow> True | Some (Inl d) \<Rightarrow> stmtOk d | Some (Inr x) \<Rightarrow> exprOk x)
     \<and> optExprOk test \<and> optExprOk update \<and> stmtOk body"
  by (cases ini) (auto split: sum.splits)

lemma parseForStatement_ok:
  assumes fr: "\<And>s. stateFrom s (statement s)"
    and ok: "\<forall>s x s'. tokensOrdered (p_tokens s) \<longrightarrow> statement s = Ok (Some x) s' \<longrightarrow> stmtOk x"
    and ord: "tokensOrdered (p_tokens st)"
    and res: "parseForStatement n statement st = Ok node st'"
  shows "stmtOk node"
proof -
  from parseForStatement_from [OF fr, of st n] res have w: "stepOk st st'" by simp
  have e: "t_start t \<le> endOrAt st' t" if "cur st = Some t" for t
    using endOrAt_ge [OF ord that w] .
  note b = parseBlock_ok [OF fr ok]
  from res e show ?thesis
    by (auto simp: parseForStatement_def Let_def advance_def stmtOk_ForStatement
             simp del: stmtOk.simps
             split: option.splits result.splits if_splits
             dest!: parseForInit_ok parseForClause_ok b
             intro: ord)
qed

lemma parseFunctionDeclaration_ok:
  assumes fr: "\<And>s. stateFrom s (statement s)"
    and ok: "\<forall>s x s'. tokensOrdered (p_tokens s) \<longrightarrow> statement s = Ok (Some x) s' \<longrightarrow> stmtOk x"
    and ord: "tokensOrdered (p_tokens st)"
    and res: "parseFunctionDeclaration n statement st = Ok node st'"
  shows "stmtOk node"
proof -
  from parseFunctionDeclaration_from [OF fr, of st n] res have w: "stepOk st st'" by simp
  have e: "t_start t \<le> endOrAt st' t" if "cur st = Some t" for t
    using endOrAt_ge [OF ord that w] .
  define st3 where "st3 = advance (advance (advance st))"
  define a where "a = (if cur st3 \<noteq> None \<and> \<not> curIs st3 '')''
      then parameterLoop (pushParameter ([], st3)) else ([], st3))"
  have "stepOk st3 (snd a)"
    using parameterLoop_from [of "pushParameter ([], st3)"] pushParameter_from [of "([], st3)"]
    by (auto simp: a_def stepOk_refl intro: stepOk_trans)
  then have "p_tokens (advance (snd a)) = p_tokens st"
    by (simp add: stepOk_def st3_def advance_def)
  with ord have o: "tokensOrdered (p_tokens (advance (snd a)))" by simp
  have b: "stmtOk body" if "parseBlock n statement (advance (snd a)) = Ok body s" for body s
    using parseBlock_ok [OF fr ok that o] by simp
  have i: "t_start t \<le> t_end t" if "cur (advance st) = Some t" for t
    using that ordered_start_end [OF ord, of "p_position (advance st)" "p_position (advance st)"]
    by (simp add: cur_Some advance_def)
  from res e b i show ?thesis
    unfolding parseFunctionDeclaration_def Let_def st3_def [symmetric] a_def [symmetric]
    by (auto split: option.splits result.splits if_splits)
qed

lemma parseClassDeclaration_ok:
  assumes fr: "\<And>s. stateFrom s (statement s)"
    and ok: "\<forall>s x s'. tokensOrdered (p_tokens s) \<longrightarrow> statement s = Ok (Some x) s' \<longrightarrow> stmtOk x"
    and ord: "tokensOrdered (p_tokens st)"
    and res: "parseClassDeclaration n statement st = Ok node st'"
  shows "stmtOk node"
proof -
  from parseClassDeclaration_from [OF fr, of st n] res have w: "stepOk st st'" by simp
  have e: "t_start t \<le> endOrAt st' t" if "cur st = Some t" for t
    using endOrAt_ge [OF ord that w] .
  have o: "tokensOrdered (p_tokens (advance (advance st)))"
    using ord by (simp add: advance_def)
  have b: "stmtOk body" if "parseBlock n statement (advance (advance st)) = Ok body s" for body s
    using parseBlock_ok [OF fr ok that o] by simp
  have i: "t_start t \<le> t_end t" if "cur (advance st) = Some t" for t
    using that ordered_start_end [OF ord, of "p_position (advance st)" "p_position (advance st)"]
    by (simp add: cur_Some advance_def)
  from res e b i show ?thesis
    unfolding parseClassDeclaration_def Let_def
    by (auto split: option.splits result.splits if_splits)
qed

lemma returned_Ok: "returned r = Ok x s \<longleftrightarrow> (\<exists>y. x = Some y \<and> r = Ok y s)"
  by (cases r) (auto simp: returned_def)

lemma tryStatement_ok:
  assumes fr: "\<And>s. stateFrom s (statement s)"
    and ok: "\<forall>s x s'. tokensOrdered (p_tokens s) \<longrightarrow> statement s = Ok (Some x) s' \<longrightarrow> stmtOk x"
    and ord: "tokensOrdered (p_tokens st)"
    and res: "tryStatement n statement tok st = Ok (Some node) st'"
  shows "stmtOk node"
  using res parseVariableDeclaration_ok [OF ord, of n node st']
    parseIfStatement_ok [OF fr ok ord, of n node st']
    parseWhileStatement_ok [OF fr ok ord, of n node st']
    parseForStatement_ok [OF fr ok ord, of n node st']
    parseFunctionDeclaration_ok [OF fr ok ord, of n node st']
    parseClassDeclaration_ok [OF fr ok ord, of n node st']
    parseReturnStatement_ok [OF ord, of n node st']
    parseExpressionStatement_ok [OF ord, of n node st']
  by (simp add: tryStatement_def returned_Ok split: if_splits)

lemma parseStatement_ok:
  "tokensOrdered (p_tokens st) \<Longrightarrow> parseStatement n st = Ok (Some node) st' \<Longrightarrow> stmtOk node"
proof (induction n arbitrary: st node st')
  case 0
  then show ?case by simp
next
  case (Suc n)
  from Suc.prems(2) obtain tok where
    t: "tryStatement n (parseStatement n) tok st = Ok (Some node) st'"
    by (auto split: option.splits result.splits)
  have h: "\<forall>s x s'. tokensOrdered (p_tokens s) \<longrightarrow>
      parseStatement n s = Ok (Some x) s' \<longrightarrow> stmtOk x"
    using Suc.IH by blast
  show ?case
    using tryStatement_ok [of "parseStatement n" st n tok node st',
        OF parseStatement_from h Suc.prems(1) t] .
qed

lemma parseLoop_ok:
  "tokensOrdered (p_tokens st) \<Longrightarrow> list_all stmtOk statements \<Longrightarrow>
   parseLoop n statements st = Ok result st' \<Longrightarrow> list_all stmtOk result"
proof (induction n arbitrary: statements st)
  case 0
  then show ?case by simp
next
  case (Suc n)
  show ?case
  proof (cases "p_position st < length (p_tokens st)")
    case True
    with Suc.prems(3) obtain r st1 where
      s: "parseStatement n st = Ok r st1"
      and l: "parseLoop n (pushStatement statements r) st1 = Ok result st'"
      by (auto split: result.splits)
    from parseStatement_from [of st n] s have "p_tokens st1 = p_tokens st"
      by (simp add: stepOk_def)
    with Suc.prems(1) have o: "tokensOrdered (p_tokens st1)" by simp
    have "list_all stmtOk (pushStatement statements r)"
      using Suc.prems(1,2) parseStatement_ok [of st n _ st1] s
      by (simp add: list_all_pushStatement)
    from Suc.IH [OF o this l] show ?thesis .
  next
    case False
    with Suc.prems(2,3) show ?thesis by auto
  qed
qed

text \<open>The offsets of a node whose offsets are in order: a block has none.\<close>

lemma stmtOk_offsets:
  "stmtOk node \<Longrightarrow>
   (\<exists>body. node = BlockStatement body \<and> stmt_start node = None \<and> stmt_end node = None)
   \<or> (\<exists>s e. stmt_start node = Some s \<and> stmt_end node = Some e \<and> s \<le> e)"
  by (cases node rule: stmtOk.cases) simp_all

text \<open>
  C3, as amended. In the program that \<^verbatim>\<open>parse\<close> returns, every statement node other than
  a \<^verbatim>\<open>BlockStatement\<close>, and every expression node, at any depth, carries a \<^verbatim>\<open>start\<close> and
  an \<^verbatim>\<open>end\<close> offset with \<^verbatim>\<open>start\<close> \<open>\<le>\<close> \<^verbatim>\<open>end\<close>. The \<^verbatim>\<open>Program\<close> node and the
  \<^verbatim>\<open>BlockStatement\<close> nodes carry no offsets.
\<close>

theorem parsed_offsets_in_order:
  assumes "parse n this input = Ok prog st"
  shows "list_all stmtOk (prog_body prog)"
proof (cases "input = [] \<or> list_all isSpace input")
  case True
  with assms show ?thesis by (auto simp: parse_def)
next
  case False
  with assms obtain toks statements where
    t: "tokenize input = Inr toks"
    and l: "parseLoop n [] (this\<lparr>p_input := input, p_tokens := toks, p_position := 0\<rparr>)
              = Ok statements st"
    and p: "prog_body prog = statements"
    by (auto simp: parse_def split: sum.splits result.splits)
  have "tokensOrdered (p_tokens (this\<lparr>p_input := input, p_tokens := toks, p_position := 0\<rparr>))"
    using tokenize_ordered [OF t] by simp
  from parseLoop_ok [OF this _ l] p show ?thesis by simp
qed

text \<open>
  \<^verbatim>\<open>if (a < 1) { var int b = a + 2; } else c(3);\<close>: an \<^verbatim>\<open>if\<close> with a block, a typed
  declaration, an \<^verbatim>\<open>else\<close> with a single statement, and a call.
\<close>

theorem parsed_offsets_in_order_witness:
  "parse 8 newParser ''if (a < 1) { var int b = a + 2; } else c(3);''
     = Ok \<lparr>prog_body =
             [IfStatement
                (BinaryExpression ''<'' (Identifier ''a'' 4 5)
                   (Literal (NumberValue True) ''1'' 8 9) 4 9)
                (BlockStatement
                   [Some (VariableDeclaration (Some ''int'') ''b''
                            (Some (BinaryExpression ''+'' (Identifier ''a'' 25 26)
                                     (Literal (NumberValue True) ''2'' 29 30) 25 30))
                            13 32)])
                (Some (BlockStatement
                         [Some (ExpressionStatement
                                  (CallExpression (Identifier ''c'' 39 40)
                                     [Literal (NumberValue True) ''3'' 41 42] 39 43)
                                  39 44)]))
                0 2],
           prog_errors = Some []\<rparr>
          ((parserOn ''if (a < 1) { var int b = a + 2; } else c(3);'')\<lparr>p_position := 22\<rparr>)
   \<and> list_all stmtOk
         (prog_body
            \<lparr>prog_body =
               [IfStatement
                  (BinaryExpression ''<'' (Identifier ''a'' 4 5)
                     (Literal (NumberValue True) ''1'' 8 9) 4 9)
                  (BlockStatement
                     [Some (VariableDeclaration (Some ''int'') ''b''
                              (Some (BinaryExpression ''+'' (Identifier ''a'' 25 26)
                                       (Literal (NumberValue True) ''2'' 29 30) 25 30))
                              13 32)])
                  (Some (BlockStatement
                           [Some (ExpressionStatement
                                    (CallExpression (Identifier ''c'' 39 40)
                                       [Literal (NumberValue True) ''3'' 41 42] 39 43)
                                    39 44)]))
                  0 2],
             prog_errors = Some []\<rparr>)"
proof -
  have t: "tokenize ''if (a < 1) { var int b = a + 2; } else c(3);'' =
      Inr [\<lparr>t_type = KEYWORD, t_value = ''if'', t_start = 0, t_end = 2\<rparr>,
            \<lparr>t_type = SYMBOL, t_value = ''('', t_start = 3, t_end = 4\<rparr>,
            \<lparr>t_type = IDENTIFIER, t_value = ''a'', t_start = 4, t_end = 5\<rparr>,
            \<lparr>t_type = SYMBOL, t_value = ''<'', t_start = 6, t_end = 7\<rparr>,
            \<lparr>t_type = NUMBER, t_value = ''1'', t_start = 8, t_end = 9\<rparr>,
            \<lparr>t_type = SYMBOL, t_value = '')'', t_start = 9, t_end = 10\<rparr>,
            \<lparr>t_type = SYMBOL, t_value = ''{'', t_start = 11, t_end = 12\<rparr>,
            \<lparr>t_type = KEYWORD, t_value = ''var'', t_start = 13, t_end = 16\<rparr>,
            \<lparr>t_type = KEYWORD, t_value = ''int'', t_start = 17, t_end = 20\<rparr>,
            \<lparr>t_type = IDENTIFIER, t_value = ''b'', t_start = 21, t_end = 22\<rparr>,
            \<lparr>t_type = SYMBOL, t_value = ''='', t_start = 23, t_end = 24\<rparr>,
            \<lparr>t_type = IDENTIFIER, t_value = ''a'', t_start = 25, t_end = 26\<rparr>,
            \<lparr>t_type = SYMBOL, t_value = ''+'', t_start = 27, t_end = 28\<rparr>,
            \<lparr>t_type = NUMBER, t_value = ''2'', t_start = 29, t_end = 30\<rparr>,
            \<lparr>t_type = SYMBOL, t_value = '';'', t_start = 30, t_end = 31\<rparr>,
            \<lparr>t_type = SYMBOL, t_value = ''}'', t_start = 32, t_end = 33\<rparr>,
            \<lparr>t_type = KEYWORD, t_value = ''else'', t_start = 34, t_end = 38\<rparr>,
            \<lparr>t_type = IDENTIFIER, t_value = ''c'', t_start = 39, t_end = 40\<rparr>,
            \<lparr>t_type = SYMBOL, t_value = ''('', t_start = 40, t_end = 41\<rparr>,
            \<lparr>t_type = NUMBER, t_value = ''3'', t_start = 41, t_end = 42\<rparr>,
            \<lparr>t_type = SYMBOL, t_value = '')'', t_start = 42, t_end = 43\<rparr>,
            \<lparr>t_type = SYMBOL, t_value = '';'', t_start = 43, t_end = 44\<rparr>]"
    by (simp add: lexer_eval)
  have h: "parse 8 newParser ''if (a < 1) { var int b = a + 2; } else c(3);''
     = Ok \<lparr>prog_body =
             [IfStatement
                (BinaryExpression ''<'' (Identifier ''a'' 4 5)
                   (Literal (NumberValue True) ''1'' 8 9) 4 9)
                (BlockStatement
                   [Some (VariableDeclaration (Some ''int'') ''b''
                            (Some (BinaryExpression ''+'' (Identifier ''a'' 25 26)
                                     (Literal (NumberValue True) ''2'' 29 30) 25 30))
                            13 32)])
                (Some (BlockStatement
                         [Some (ExpressionStatement
                                  (CallExpression (Identifier ''c'' 39 40)
                                     [Literal (NumberValue True) ''3'' 41 42] 39 43)
                                  39 44)]))
                0 2],
           prog_errors = Some []\<rparr>
          ((parserOn ''if (a < 1) { var int b = a + 2; } else c(3);'')\<lparr>p_position := 22\<rparr>)"
    by (simp add: parserOn_def t expression_eval statement_eval isSpace_def)
  from parsed_offsets_in_order [OF h] show ?thesis by (intro conjI h)
qed

text \<open>
  C3 as stated fails on the nodes that carry no offsets: in \<^verbatim>\<open>while (x) y;\<close> the body
  of the loop is a \<^verbatim>\<open>BlockStatement\<close>, built as \<^verbatim>\<open>{ type, body }\<close> with neither
  \<^verbatim>\<open>start\<close> nor \<^verbatim>\<open>end\<close>, under a \<^verbatim>\<open>Program\<close> that has none either.
\<close>

theorem block_statement_without_offsets:
  "parse 6 newParser ''while (x) y;''
     = Ok \<lparr>prog_body =
             [WhileStatement (Identifier ''x'' 7 8)
                (BlockStatement [Some (ExpressionStatement (Identifier ''y'' 10 11) 10 12)])
                0 5],
           prog_errors = Some []\<rparr>
          ((parserOn ''while (x) y;'')\<lparr>p_position := 6\<rparr>)
   \<and> stmt_start (BlockStatement [Some (ExpressionStatement (Identifier ''y'' 10 11) 10 12)])
       = None
   \<and> stmt_end (BlockStatement [Some (ExpressionStatement (Identifier ''y'' 10 11) 10 12)])
       = None"
proof -
  have t: "tokenize ''while (x) y;'' =
      Inr [\<lparr>t_type = KEYWORD, t_value = ''while'', t_start = 0, t_end = 5\<rparr>,
            \<lparr>t_type = SYMBOL, t_value = ''('', t_start = 6, t_end = 7\<rparr>,
            \<lparr>t_type = IDENTIFIER, t_value = ''x'', t_start = 7, t_end = 8\<rparr>,
            \<lparr>t_type = SYMBOL, t_value = '')'', t_start = 8, t_end = 9\<rparr>,
            \<lparr>t_type = IDENTIFIER, t_value = ''y'', t_start = 10, t_end = 11\<rparr>,
            \<lparr>t_type = SYMBOL, t_value = '';'', t_start = 11, t_end = 12\<rparr>]"
    by (simp add: lexer_eval)
  show ?thesis
    by (simp add: parserOn_def t expression_eval statement_eval isSpace_def endOrAt_def)
qed

section \<open>Properties of the parser: the declared types are type keywords\<close>

text \<open>
  The parser stores a declared type only under \<^verbatim>\<open>isTypeKeyword\<close>, so every declaration
  of a parsed program has a type tag for its declared type, and the type checker keeps its
  symbol table in type tags.
\<close>

lemma declaredTypesOkList_map_Some:
  "declaredTypesOkList (map Some body) \<longleftrightarrow> list_all declaredTypesOk body"
  by (induction body) simp_all

lemma declaredTypesOkList_single:
  "declaredTypesOkList [r] \<longleftrightarrow> (\<forall>x. r = Some x \<longrightarrow> declaredTypesOk x)"
  by (cases r) simp_all

lemma parseVariableDeclaration_types:
  "parseVariableDeclaration n st = Ok node st' \<Longrightarrow> declaredTypesOk node"
  by (auto simp: parseVariableDeclaration_def Let_def isTypeKeyword_def typeTags_def
           split: option.splits result.splits if_splits)

lemma parseAssignmentExpression_types:
  "parseAssignmentExpression n left st = Ok node st' \<Longrightarrow> declaredTypesOk node"
  by (auto simp: parseAssignmentExpression_def Let_def split: result.splits if_splits)

lemma parseExpressionStatement_types:
  "parseExpressionStatement n st = Ok node st' \<Longrightarrow> declaredTypesOk node"
  by (auto simp: parseExpressionStatement_def Let_def
           split: result.splits if_splits dest: parseAssignmentExpression_types)

lemma parseReturnStatement_types:
  "parseReturnStatement n st = Ok node st' \<Longrightarrow> declaredTypesOk node"
  by (auto simp: parseReturnStatement_def Let_def split: option.splits result.splits if_splits)

lemma blockLoop_types:
  assumes ok: "\<forall>s x s'. statement s = Ok (Some x) s' \<longrightarrow> declaredTypesOk x"
  shows "list_all declaredTypesOk body \<Longrightarrow> blockLoop n statement body st = Ok result st' \<Longrightarrow>
         list_all declaredTypesOk result"
proof (induction n arbitrary: body st)
  case 0
  then show ?case by simp
next
  case (Suc n)
  show ?case
  proof (cases "p_position st < length (p_tokens st) \<and> \<not> curIs st ''}''")
    case True
    with Suc.prems(2) obtain r st1 where
      s: "statement st = Ok r st1"
      and l: "blockLoop n statement (pushStatement body r) st1 = Ok result st'"
      by (auto split: result.splits)
    have "list_all declaredTypesOk (pushStatement body r)"
      using Suc.prems(1) ok s by (auto simp: list_all_pushStatement)
    from Suc.IH [OF this l] show ?thesis .
  next
    case False
    with Suc.prems show ?thesis by auto
  qed
qed

lemma parseBlock_types:
  assumes ok: "\<forall>s x s'. statement s = Ok (Some x) s' \<longrightarrow> declaredTypesOk x"
    and res: "parseBlock n statement st = Ok b st'"
  shows "declaredTypesOk b"
proof (cases "curIs st ''{''")
  case True
  with res obtain body st1 where
    l: "blockLoop n statement [] (advance st) = Ok body st1"
    and b: "b = BlockStatement (map Some body)"
    by (auto simp: parseBlock_def split: result.splits)
  from blockLoop_types [OF ok _ l] b show ?thesis
    by (simp add: declaredTypesOkList_map_Some)
next
  case False
  with res obtain r st1 where s: "statement st = Ok r st1" and b: "b = BlockStatement [r]"
    by (auto simp: parseBlock_def split: result.splits)
  with ok show ?thesis by (auto simp: declaredTypesOkList_single)
qed

lemma parseIfStatement_types:
  assumes ok: "\<forall>s x s'. statement s = Ok (Some x) s' \<longrightarrow> declaredTypesOk x"
  shows "parseIfStatement n statement st = Ok node st' \<Longrightarrow> declaredTypesOk node"
proof (induction n arbitrary: st node st')
  case 0
  then show ?case by simp
next
  case (Suc n)
  note b = parseBlock_types [OF ok]
  from Suc.prems show ?case
    by (auto simp: Let_def split: option.splits result.splits if_splits dest!: b Suc.IH)
qed

lemma parseWhileStatement_types:
  assumes ok: "\<forall>s x s'. statement s = Ok (Some x) s' \<longrightarrow> declaredTypesOk x"
    and res: "parseWhileStatement n statement st = Ok node st'"
  shows "declaredTypesOk node"
  using res
  by (auto simp: parseWhileStatement_def Let_def
           split: option.splits result.splits if_splits dest!: parseBlock_types [OF ok])

lemma declaredTypesOk_ForStatement:
  "declaredTypesOk (ForStatement ini test update body s e) \<longleftrightarrow>
     (case ini of Some (Inl d) \<Rightarrow> declaredTypesOk d | _ \<Rightarrow> True) \<and> declaredTypesOk body"
  by (cases ini) (auto split: sum.splits)

lemma parseForInit_types:
  "parseForInit n st = Ok ini st1 \<Longrightarrow>
   (case ini of Some (Inl d) \<Rightarrow> declaredTypesOk d | _ \<Rightarrow> True)"
  by (auto simp: parseForInit_def split: option.splits result.splits if_splits
           dest: parseVariableDeclaration_types)

lemma parseForStatement_types:
  assumes ok: "\<forall>s x s'. statement s = Ok (Some x) s' \<longrightarrow> declaredTypesOk x"
    and res: "parseForStatement n statement st = Ok node st'"
  shows "declaredTypesOk node"
  using res
  by (auto simp: parseForStatement_def Let_def declaredTypesOk_ForStatement
           simp del: declaredTypesOk.simps
           split: option.splits result.splits if_splits
           dest!: parseBlock_types [OF ok] parseForInit_types)

lemma parseFunctionDeclaration_types:
  assumes ok: "\<forall>s x s'. statement s = Ok (Some x) s' \<longrightarrow> declaredTypesOk x"
    and res: "parseFunctionDeclaration n statement st = Ok node st'"
  shows "declaredTypesOk node"
  using res
  by (auto simp: parseFunctionDeclaration_def Let_def
           split: option.splits result.splits if_splits dest!: parseBlock_types [OF ok])

lemma parseClassDeclaration_types:
  assumes ok: "\<forall>s x s'. statement s = Ok (Some x) s' \<longrightarrow> declaredTypesOk x"
    and res: "parseClassDeclaration n statement st = Ok node st'"
  shows "declaredTypesOk node"
  using res
  by (auto simp: parseClassDeclaration_def Let_def
           split: option.splits result.splits if_splits dest!: parseBlock_types [OF ok])

lemma tryStatement_types:
  assumes ok: "\<forall>s x s'. statement s = Ok (Some x) s' \<longrightarrow> declaredTypesOk x"
    and res: "tryStatement n statement tok st = Ok (Some node) st'"
  shows "declaredTypesOk node"
  using res parseVariableDeclaration_types [of n st node st']
    parseIfStatement_types [OF ok, of n st node st']
    parseWhileStatement_types [OF ok, of n st node st']
    parseForStatement_types [OF ok, of n st node st']
    parseFunctionDeclaration_types [OF ok, of n st node st']
    parseClassDeclaration_types [OF ok, of n st node st']
    parseReturnStatement_types [of n st node st']
    parseExpressionStatement_types [of n st node st']
  by (simp add: tryStatement_def returned_Ok split: if_splits)

lemma parseStatement_types:
  "parseStatement n st = Ok (Some node) st' \<Longrightarrow> declaredTypesOk node"
proof (induction n arbitrary: st node st')
  case 0
  then show ?case by simp
next
  case (Suc n)
  from Suc.prems obtain tok where
    t: "tryStatement n (parseStatement n) tok st = Ok (Some node) st'"
    by (auto split: option.splits result.splits)
  have h: "\<forall>s x s'. parseStatement n s = Ok (Some x) s' \<longrightarrow> declaredTypesOk x"
    using Suc.IH by blast
  show ?case
    using tryStatement_types [of "parseStatement n" n tok st node st', OF h t] .
qed

lemma parseLoop_types:
  "list_all declaredTypesOk statements \<Longrightarrow> parseLoop n statements st = Ok result st' \<Longrightarrow>
   list_all declaredTypesOk result"
proof (induction n arbitrary: statements st)
  case 0
  then show ?case by simp
next
  case (Suc n)
  show ?case
  proof (cases "p_position st < length (p_tokens st)")
    case True
    with Suc.prems(2) obtain r st1 where
      s: "parseStatement n st = Ok r st1"
      and l: "parseLoop n (pushStatement statements r) st1 = Ok result st'"
      by (auto split: result.splits)
    have "list_all declaredTypesOk (pushStatement statements r)"
      using Suc.prems(1) parseStatement_types [of n st _ st1] s
      by (simp add: list_all_pushStatement)
    from Suc.IH [OF this l] show ?thesis .
  next
    case False
    with Suc.prems show ?thesis by auto
  qed
qed

lemma parse_types:
  assumes "parse n this input = Ok prog st"
  shows "list_all declaredTypesOk (prog_body prog)"
proof (cases "input = [] \<or> list_all isSpace input")
  case True
  with assms show ?thesis by (auto simp: parse_def)
next
  case False
  with assms obtain toks statements where
    l: "parseLoop n [] (this\<lparr>p_input := input, p_tokens := toks, p_position := 0\<rparr>)
          = Ok statements st"
    and p: "prog_body prog = statements"
    by (auto simp: parse_def split: sum.splits result.splits)
  from parseLoop_types [OF _ l] p show ?thesis by simp
qed

text \<open>
  So the symbol table that \<^verbatim>\<open>check\<close> leaves for a parsed program holds type tags only.
\<close>

lemma parse_check_tableOk:
  assumes "parse n this input = Ok prog st"
  shows "tableOk (symbolTable (check (prog_body prog) doc errs))"
proof -
  have "declaredTypesOkList (map Some (prog_body prog))"
    using parse_types [OF assms] by (simp add: declaredTypesOkList_map_Some)
  moreover have "tableOk (symbolTable \<lparr>symbolTable = Map.empty, tc_errors = errs\<rparr>)"
    by (simp add: tableOk_def)
  ultimately show ?thesis
    unfolding check_def by (rule checkNode_tableOk(2))
qed

end
